theory Spec2Isabelle
  imports Complex_Main "HOL-Library.Log_Nat"
begin

section \<open>JavaScript numbers\<close>

text \<open>
  A JavaScript number is an IEEE 754 binary64 value. It is modelled by the rational it
  denotes, or one of the three special values. The two zeros are identified: the program
  never divides by a computed zero and never inspects the sign of a zero. Every arithmetic
  operation and every conversion from a decimal numeral rounds its exact result to the
  nearest binary64 value, ties to even (\<open>fl\<close>).
\<close>

datatype jsnum = NaN | PInf | NInf | Fin rat

definition rne :: "rat \<Rightarrow> int" where
  \<comment> \<open>nearest integer, ties to even\<close>
  "rne x = (let f = \<lfloor>x\<rfloor>; d = x - of_int f in
     if d < 1/2 then f else if 1/2 < d then f + 1 else if even f then f else f + 1)"

definition ilog2 :: "rat \<Rightarrow> int" where
  \<comment> \<open>for \<open>0 < x\<close>: the \<open>e\<close> with \<open>2 powi e \<le> x < 2 powi (e + 1)\<close>\<close>
  "ilog2 x = (case quotient_of x of (p, q) \<Rightarrow>
     let k = bitlen p - bitlen q in if 2 powi k \<le> x then k else k - 1)"

definition quantum :: "rat \<Rightarrow> rat" where
  \<comment> \<open>spacing of the binary64 values around \<open>a\<close>: 53 significant bits, subnormal below \<open>2 powi - 1022\<close>\<close>
  "quantum a = 2 powi (max (ilog2 a) (- 1022) - 52)"

definition round64 :: "rat \<Rightarrow> rat" where
  \<comment> \<open>for \<open>0 < a\<close>: the nearest multiple of the quantum\<close>
  "round64 a = of_int (rne (a / quantum a)) * quantum a"

definition fl :: "rat \<Rightarrow> jsnum" where
  "fl x = (if x = 0 then Fin 0 else
     let r = round64 \<bar>x\<bar> in
     if 2 ^ 1024 \<le> r then (if 0 < x then PInf else NInf)
     else Fin (if 0 < x then r else - r))"

fun js_mul :: "jsnum \<Rightarrow> jsnum \<Rightarrow> jsnum" where
  "js_mul (Fin a) (Fin b) = fl (a * b)"
| "js_mul NaN _ = NaN"
| "js_mul _ NaN = NaN"
| "js_mul (Fin a) PInf = (if a = 0 then NaN else if 0 < a then PInf else NInf)"
| "js_mul (Fin a) NInf = (if a = 0 then NaN else if 0 < a then NInf else PInf)"
| "js_mul PInf (Fin b) = (if b = 0 then NaN else if 0 < b then PInf else NInf)"
| "js_mul NInf (Fin b) = (if b = 0 then NaN else if 0 < b then NInf else PInf)"
| "js_mul PInf PInf = PInf"
| "js_mul NInf NInf = PInf"
| "js_mul PInf NInf = NInf"
| "js_mul NInf PInf = NInf"

fun js_div :: "jsnum \<Rightarrow> jsnum \<Rightarrow> jsnum" where
  \<comment> \<open>a zero divisor is taken as \<open>+0\<close>; the program only divides by the literal 100\<close>
  "js_div (Fin a) (Fin b) =
     (if b = 0 then (if a = 0 then NaN else if 0 < a then PInf else NInf) else fl (a / b))"
| "js_div NaN _ = NaN"
| "js_div _ NaN = NaN"
| "js_div (Fin a) PInf = Fin 0"
| "js_div (Fin a) NInf = Fin 0"
| "js_div PInf (Fin b) = (if 0 \<le> b then PInf else NInf)"
| "js_div NInf (Fin b) = (if 0 \<le> b then NInf else PInf)"
| "js_div PInf PInf = NaN"
| "js_div NInf NInf = NaN"
| "js_div PInf NInf = NaN"
| "js_div NInf PInf = NaN"

fun js_round :: "jsnum \<Rightarrow> jsnum" where
  \<comment> \<open>\<open>Math.round\<close>: the nearest integer, ties towards \<open>+\<infinity>\<close>\<close>
  "js_round (Fin x) = Fin (of_int \<lfloor>x + 1/2\<rfloor>)"
| "js_round n = n"

fun js_lt :: "jsnum \<Rightarrow> jsnum \<Rightarrow> bool" where
  "js_lt (Fin a) (Fin b) = (a < b)"
| "js_lt NaN _ = False"
| "js_lt _ NaN = False"
| "js_lt NInf NInf = False"
| "js_lt NInf _ = True"
| "js_lt _ NInf = False"
| "js_lt PInf _ = False"
| "js_lt _ PInf = True"

definition js_gt :: "jsnum \<Rightarrow> jsnum \<Rightarrow> bool" where
  "js_gt a b = js_lt b a"

definition js_le :: "jsnum \<Rightarrow> jsnum \<Rightarrow> bool" where
  "js_le a b = (js_lt a b \<or> (a \<noteq> NaN \<and> a = b))"

definition truthy_num :: "jsnum \<Rightarrow> bool" where
  \<comment> \<open>a number is falsy when it is zero or NaN\<close>
  "truthy_num n = (n \<noteq> NaN \<and> n \<noteq> Fin 0)"

definition or_null :: "jsnum \<Rightarrow> jsnum option" where
  \<comment> \<open>\<open>n || null\<close>\<close>
  "or_null n = (if truthy_num n then Some n else None)"

definition positive :: "jsnum option \<Rightarrow> bool" where
  \<comment> \<open>\<open>p && p > 0\<close> for \<open>p\<close> a number or null\<close>
  "positive p = (case p of None \<Rightarrow> False | Some n \<Rightarrow> truthy_num n \<and> js_gt n (Fin 0))"

section \<open>Strings and the built-in conversions\<close>

text \<open>
  Strings are lists of 8-bit characters, read as code units in the Latin-1 range.
  \<open>is_space\<close> is the class \<open>\s\<close> (and what \<open>trim\<close> strips) restricted to that range.
\<close>

definition is_space :: "char \<Rightarrow> bool" where
  "is_space c = ((of_char c :: nat) \<in> {9, 10, 11, 12, 13, 32, 160})"

definition trim :: "string \<Rightarrow> string" where
  "trim s = rev (dropWhile is_space (rev (dropWhile is_space s)))"

definition is_digit :: "char \<Rightarrow> bool" where
  "is_digit c = (48 \<le> (of_char c :: nat) \<and> (of_char c :: nat) \<le> 57)"

definition is_alnum :: "char \<Rightarrow> bool" where
  \<comment> \<open>the class \<open>[a-z0-9]\<close> under the flag \<open>i\<close>\<close>
  "is_alnum c = (let n = (of_char c :: nat) in
     (48 \<le> n \<and> n \<le> 57) \<or> (65 \<le> n \<and> n \<le> 90) \<or> (97 \<le> n \<and> n \<le> 122))"

definition lower_char :: "char \<Rightarrow> char" where
  "lower_char c = (let n = (of_char c :: nat) in
     if (65 \<le> n \<and> n \<le> 90) \<or> (192 \<le> n \<and> n \<le> 222 \<and> n \<noteq> 215) then char_of (n + 32) else c)"

definition toLowerCase :: "string \<Rightarrow> string" where
  "toLowerCase s = map lower_char s"

fun radix_digit :: "nat \<Rightarrow> char \<Rightarrow> nat option" where
  "radix_digit b c = (let n = (of_char c :: nat);
       v = (if 48 \<le> n \<and> n \<le> 57 then n - 48
            else if 97 \<le> n \<and> n \<le> 102 then n - 87
            else if 65 \<le> n \<and> n \<le> 70 then n - 55 else 16)
     in if v < b then Some v else None)"

definition digits_val :: "nat \<Rightarrow> string \<Rightarrow> nat" where
  "digits_val b ds = foldl (\<lambda>n c. b * n + (case radix_digit b c of Some v \<Rightarrow> v | None \<Rightarrow> 0)) 0 ds"

definition exponent_part :: "string \<Rightarrow> int \<times> string" where
  \<comment> \<open>an optional \<open>ExponentPart\<close>: its value (0 when absent) and the rest\<close>
  "exponent_part r = (case r of
       [] \<Rightarrow> (0, r)
     | c # t \<Rightarrow>
         if c = CHR ''e'' \<or> c = CHR ''E'' then
           (let neg = (case t of [] \<Rightarrow> False | s # _ \<Rightarrow> s = CHR ''-'');
                t' = (case t of [] \<Rightarrow> t | s # u \<Rightarrow> if s = CHR ''+'' \<or> s = CHR ''-'' then u else t);
                ds = takeWhile is_digit t'
            in if ds = [] then (0, r)
               else ((if neg then - int (digits_val 10 ds) else int (digits_val 10 ds)),
                     dropWhile is_digit t'))
         else (0, r))"

definition str_unsigned_decimal :: "string \<Rightarrow> (rat \<times> string) option" where
  \<comment> \<open>the longest prefix that is a \<open>StrUnsignedDecimalLiteral\<close> other than \<open>Infinity\<close>\<close>
  "str_unsigned_decimal s =
     (let ip = takeWhile is_digit s; r1 = dropWhile is_digit s;
          dot = (case r1 of [] \<Rightarrow> False | c # _ \<Rightarrow> c = CHR ''.'');
          fp = (if dot then takeWhile is_digit (tl r1) else []);
          r2 = (if dot then dropWhile is_digit (tl r1) else r1)
      in if ip = [] \<and> fp = [] then None
         else (case exponent_part r2 of (e, r3) \<Rightarrow>
           Some ((of_nat (digits_val 10 ip) + of_nat (digits_val 10 fp) / 10 ^ length fp) * 10 powi e, r3)))"

definition str_decimal :: "string \<Rightarrow> (jsnum \<times> string) option" where
  \<comment> \<open>the longest prefix that is a \<open>StrDecimalLiteral\<close>\<close>
  "str_decimal s =
     (let neg = (case s of [] \<Rightarrow> False | c # _ \<Rightarrow> c = CHR ''-'');
          u = (case s of [] \<Rightarrow> s | c # t \<Rightarrow> if c = CHR ''+'' \<or> c = CHR ''-'' then t else s)
      in if take 8 u = ''Infinity'' then Some (if neg then NInf else PInf, drop 8 u)
         else (case str_unsigned_decimal u of
                 None \<Rightarrow> None
               | Some (x, r) \<Rightarrow> Some (fl (if neg then - x else x), r)))"

definition str_non_decimal :: "string \<Rightarrow> jsnum option" where
  \<comment> \<open>\<open>0x\<close>, \<open>0o\<close> and \<open>0b\<close> integer literals\<close>
  "str_non_decimal s = (case s of
       z # x # ds \<Rightarrow>
         (let b = (if x = CHR ''x'' \<or> x = CHR ''X'' then 16
                   else if x = CHR ''o'' \<or> x = CHR ''O'' then 8
                   else if x = CHR ''b'' \<or> x = CHR ''B'' then 2 else (0::nat))
          in if z = CHR ''0'' \<and> b \<noteq> 0 \<and> ds \<noteq> [] \<and> list_all (\<lambda>c. radix_digit b c \<noteq> None) ds
             then Some (fl (of_nat (digits_val b ds))) else None)
     | _ \<Rightarrow> None)"

definition js_Number :: "string \<Rightarrow> jsnum" where
  \<comment> \<open>\<open>Number(s)\<close> for a string \<open>s\<close>\<close>
  "js_Number s = (let t = trim s in
     if t = [] then Fin 0
     else case str_non_decimal t of
            Some n \<Rightarrow> n
          | None \<Rightarrow> (case str_decimal t of Some (n, []) \<Rightarrow> n | _ \<Rightarrow> NaN))"

definition js_parseFloat :: "string \<Rightarrow> jsnum" where
  \<comment> \<open>\<open>parseFloat(s)\<close> for a string \<open>s\<close>\<close>
  "js_parseFloat s = (case str_decimal (dropWhile is_space s) of Some (n, _) \<Rightarrow> n | None \<Rightarrow> NaN)"

section \<open>Values and the numeric parser\<close>

text \<open>
  A value is a primitive or a reference to a container of the heap. \<open>String(raw)\<close> of a
  container is computed by the runtime (\<open>Object.prototype.toString\<close>,
  \<open>Array.prototype.join\<close>); the model takes it as the parameter \<open>S\<close>, from references
  to strings.
\<close>

datatype jsval = Undefined | Null | JBool bool | JNum jsnum | JStr string | Ref nat

definition replace_first :: "char \<Rightarrow> char \<Rightarrow> string \<Rightarrow> string" where
  \<comment> \<open>\<open>s.replace(a, b)\<close> with a string pattern: the first occurrence only\<close>
  "replace_first a b s =
     (case dropWhile (\<lambda>c. c \<noteq> a) s of [] \<Rightarrow> s | _ # t \<Rightarrow> takeWhile (\<lambda>c. c \<noteq> a) s @ b # t)"

definition parse_string :: "string \<Rightarrow> jsnum option" where
  \<comment> \<open>\<open>parseToNumber\<close> from \<open>const s = String(raw).trim()\<close> on, given \<open>String(raw)\<close>\<close>
  "parse_string str = (let s = trim str in
     if s = [] then None
     else let cleaned = filter (\<lambda>c. c \<noteq> CHR ''R'' \<and> c \<noteq> CHR ''$'' \<and> \<not> is_space c) s in
       if CHR '','' \<in> set cleaned \<and> CHR ''.'' \<in> set cleaned then
         or_null (js_Number (replace_first (CHR '','') (CHR ''.'') (filter (\<lambda>c. c \<noteq> CHR ''.'') cleaned)))
       else if CHR '','' \<in> set cleaned \<and> CHR ''.'' \<notin> set cleaned then
         or_null (js_Number (replace_first (CHR '','') (CHR ''.'') cleaned))
       else let n = js_Number cleaned in if n = NaN then None else Some n)"

fun parseToNumber :: "(nat \<Rightarrow> string) \<Rightarrow> jsval \<Rightarrow> jsnum option" where
  "parseToNumber S Null = None"
| "parseToNumber S Undefined = None"
| "parseToNumber S (JNum n) = Some n"
| "parseToNumber S (JStr s) = (if s = [] then None else parse_string s)"
| "parseToNumber S (JBool b) = parse_string (if b then ''true'' else ''false'')"
| "parseToNumber S (Ref a) = parse_string (S a)"

section \<open>Minimum price\<close>

definition PRECO_MIN_FALLBACK :: jsnum where
  "PRECO_MIN_FALLBACK = Fin 15"

definition calcPrecoMinFromBase :: "(nat \<Rightarrow> string) \<Rightarrow> jsval \<Rightarrow> jsnum" where
  "calcPrecoMinFromBase S base = (case parseToNumber S base of
       None \<Rightarrow> PRECO_MIN_FALLBACK
     | Some b \<Rightarrow>
         if \<not> truthy_num b \<or> js_le b (Fin 0) then PRECO_MIN_FALLBACK
         else js_div (js_round (js_mul (js_mul b (fl (115 / 100))) (Fin 100))) (Fin 100))"

section \<open>Catalog records\<close>

text \<open>
  A record of the catalog is a heap of containers and a root value. A container is an object,
  given by its properties in the order of \<open>Object.keys\<close> (keys are distinct), or an array.
  Containers are addressed by their position in the heap, so that the set \<open>seen\<close> of
  visited references, which the two searches share and mutate, is a set of addresses, and a
  record may contain cycles. A reference beyond the heap denotes no value of the program; it
  reads as an object without properties.
\<close>

datatype container = Obj "(string \<times> jsval) list" | Arr "jsval list"

type_synonym heap = "container list"

definition deref :: "heap \<Rightarrow> nat \<Rightarrow> container" where
  "deref h a = (if a < length h then h ! a else Obj [])"

fun show_nat :: "nat \<Rightarrow> string" where
  "show_nat n = (if n < 10 then [char_of (48 + n)] else show_nat (n div 10) @ [char_of (48 + n mod 10)])"

fun entries :: "container \<Rightarrow> (string \<times> jsval) list" where
  \<comment> \<open>the pairs \<open>(k, obj[k])\<close> for \<open>k\<close> of \<open>Object.keys(obj)\<close>\<close>
  "entries (Obj kvs) = kvs"
| "entries (Arr vs) = zip (map show_nat [0 ..< length vs]) vs"

section \<open>Field locator\<close>

definition normalizeKey :: "string \<Rightarrow> string" where
  "normalizeKey k = (if k = [] then [] else trim (toLowerCase (filter is_alnum k)))"

fun js_includes :: "string \<Rightarrow> string \<Rightarrow> bool" where
  \<comment> \<open>\<open>s.includes(t)\<close>\<close>
  "js_includes [] t = (t = [])"
| "js_includes (c # cs) t = (take (length t) (c # cs) = t \<or> js_includes cs t)"

definition key_matches :: "string list \<Rightarrow> string \<Rightarrow> bool" where
  \<comment> \<open>the inner loop over \<open>targetNorms\<close>: some normalized name equals, contains or is contained in the normalized key\<close>
  "key_matches targetNorms k = (let kn = normalizeKey k in
     list_ex (\<lambda>tn. kn = tn \<or> js_includes kn tn \<or> js_includes tn kn) targetNorms)"

type_synonym found = "string \<times> jsval \<times> string list"

fun level_match :: "string list \<Rightarrow> string list \<Rightarrow> (string \<times> jsval) list \<Rightarrow> found option" where
  \<comment> \<open>first loop of \<open>findFieldRecursive\<close>: the keys of the current level; the result is \<open>(key, value, path)\<close>\<close>
  "level_match targetNorms path [] = None"
| "level_match targetNorms path ((k, val) # kvs) =
     (if val = Undefined \<or> val = Null \<or> val = JStr [] then level_match targetNorms path kvs
      else if key_matches targetNorms k then Some (k, val, path @ [k])
      else level_match targetNorms path kvs)"

text \<open>
  The recursion of the two searches is bounded by fuel, one unit for each container entered;
  the result \<open>None\<close> means that the fuel ran out. Otherwise the result is the value returned
  and the set \<open>seen\<close> as the call leaves it.
\<close>

function (sequential) findFieldRecursive ::
    "nat \<Rightarrow> heap \<Rightarrow> jsval \<Rightarrow> string list \<Rightarrow> nat set \<Rightarrow> string list \<Rightarrow> (found option \<times> nat set) option"
  and ffr_nested ::
    "nat \<Rightarrow> heap \<Rightarrow> (string \<times> jsval) list \<Rightarrow> string list \<Rightarrow> nat set \<Rightarrow> string list \<Rightarrow> (found option \<times> nat set) option"
where
  "findFieldRecursive n h Undefined names seen path = Some (None, seen)"
| "findFieldRecursive n h Null names seen path = Some (None, seen)"
| "findFieldRecursive n h (JBool b) names seen path = Some (None, seen)"
| "findFieldRecursive n h (JNum x) names seen path = Some (None, seen)"
| "findFieldRecursive n h (JStr s) names seen path = Some (None, seen)"
| "findFieldRecursive 0 h (Ref a) names seen path = (if a \<in> seen then Some (None, seen) else None)"
| "findFieldRecursive (Suc n) h (Ref a) names seen path =
     (if a \<in> seen then Some (None, seen)
      else case level_match (map normalizeKey names) path (entries (deref h a)) of
             Some r \<Rightarrow> Some (Some r, insert a seen)
           | None \<Rightarrow> ffr_nested n h (entries (deref h a)) names (insert a seen) path)"
| "ffr_nested n h [] names seen path = Some (None, seen)"
| "ffr_nested n h ((k, Ref a) # kvs) names seen path =
     (case findFieldRecursive n h (Ref a) names seen (path @ [k]) of
        None \<Rightarrow> None
      | Some (Some r, seen') \<Rightarrow> Some (Some r, seen')
      | Some (None, seen') \<Rightarrow> ffr_nested n h kvs names seen' path)"
| "ffr_nested n h ((k, val) # kvs) names seen path = ffr_nested n h kvs names seen path"
  by pat_completeness auto
termination
  by (relation "inv_image (less_than <*lex*> less_than)
        (\<lambda>x. case x of
           Inl (n, h, v, names, seen, path) \<Rightarrow> (n, 0)
         | Inr (n, h, kvs, names, seen, path) \<Rightarrow> (n, Suc (length kvs)))") auto

section \<open>Price extractor\<close>

definition tabelaFields :: "string list" where
  "tabelaFields = [''Preco_med_prod'', ''Preco_ens'', ''Preco_med_out'']"

definition priorityKeys :: "string list" where
  "priorityKeys = [''Preco_med_prod'', ''Preco_ens'', ''Preco_med_out'', ''Preco_med'', ''Preco'', ''preco'',
     ''preco_med'', ''preco_ens'', ''valor'', ''Valor'', ''valor_unitario'', ''price'', ''Price'',
     ''valor_unitario'']"

definition present :: "jsval \<Rightarrow> bool" where
  \<comment> \<open>\<open>v !== undefined && v !== null && v !== ''\<close>\<close>
  "present v = (v \<noteq> Undefined \<and> v \<noteq> Null \<and> v \<noteq> JStr [])"

fun priority_lookup :: "(nat \<Rightarrow> string) \<Rightarrow> (string \<times> jsval) list \<Rightarrow> string list \<Rightarrow> jsnum option" where
  \<comment> \<open>step 2 of \<open>findPriceInObject\<close>\<close>
  "priority_lookup S kvs [] = None"
| "priority_lookup S kvs (k # ks) =
     (case find (\<lambda>(x, v). x = k \<or> toLowerCase x = toLowerCase k) kvs of
        None \<Rightarrow> priority_lookup S kvs ks
      | Some (lk, v) \<Rightarrow>
          if lk \<noteq> [] \<and> present v \<and> positive (parseToNumber S v) then parseToNumber S v
          else priority_lookup S kvs ks)"

definition price_like :: "string \<Rightarrow> bool" where
  \<comment> \<open>\<open>/preco|valor|price/i.test(k)\<close>\<close>
  "price_like k = (let l = toLowerCase k in
     js_includes l ''preco'' \<or> js_includes l ''valor'' \<or> js_includes l ''price'')"

fun price_like_scan :: "(nat \<Rightarrow> string) \<Rightarrow> (string \<times> jsval) list \<Rightarrow> jsnum option" where
  \<comment> \<open>step 3 of \<open>findPriceInObject\<close>\<close>
  "price_like_scan S [] = None"
| "price_like_scan S ((k, v) # kvs) =
     (if price_like k \<and> positive (parseToNumber S v) then parseToNumber S v
      else price_like_scan S kvs)"

fun tabela_price :: "(nat \<Rightarrow> string) \<Rightarrow> found option \<Rightarrow> jsnum option" where
  \<comment> \<open>step 1 of \<open>findPriceInObject\<close>, after the call of the field locator\<close>
  "tabela_price S None = None"
| "tabela_price S (Some (k, v, p)) = (if positive (parseToNumber S v) then parseToNumber S v else None)"

definition level_price :: "(nat \<Rightarrow> string) \<Rightarrow> found option \<Rightarrow> (string \<times> jsval) list \<Rightarrow> jsnum option" where
  \<comment> \<open>steps 1 to 3 of \<open>findPriceInObject\<close>: the first of them that returns\<close>
  "level_price S tabelaFound kvs =
     (case tabela_price S tabelaFound of
        Some parsedTabela \<Rightarrow> Some parsedTabela
      | None \<Rightarrow>
          (case priority_lookup S kvs priorityKeys of
             Some parsed \<Rightarrow> Some parsed
           | None \<Rightarrow> price_like_scan S kvs))"

fun elements :: "container \<Rightarrow> jsval list" where
  \<comment> \<open>what step 4 iterates: the elements when \<open>Array.isArray(obj)\<close>, nothing otherwise\<close>
  "elements (Arr els) = els"
| "elements (Obj kvs) = []"

function (sequential) findPriceInObject ::
    "nat \<Rightarrow> (nat \<Rightarrow> string) \<Rightarrow> heap \<Rightarrow> jsval \<Rightarrow> nat set \<Rightarrow> (jsnum option \<times> nat set) option"
  and fpo_elements ::
    "nat \<Rightarrow> (nat \<Rightarrow> string) \<Rightarrow> heap \<Rightarrow> jsval list \<Rightarrow> nat set \<Rightarrow> (jsnum option \<times> nat set) option"
  and fpo_values ::
    "nat \<Rightarrow> (nat \<Rightarrow> string) \<Rightarrow> heap \<Rightarrow> (string \<times> jsval) list \<Rightarrow> nat set \<Rightarrow> (jsnum option \<times> nat set) option"
where
  "findPriceInObject n S h Null seen = Some (None, seen)"
| "findPriceInObject n S h Undefined seen = Some (None, seen)"
| "findPriceInObject n S h (JNum x) seen = Some (if js_gt x (Fin 0) then Some x else None, seen)"
| "findPriceInObject n S h (JStr s) seen =
     Some (if positive (parseToNumber S (JStr s)) then parseToNumber S (JStr s) else None, seen)"
| "findPriceInObject n S h (JBool b) seen = Some (None, seen)"
| "findPriceInObject 0 S h (Ref a) seen = (if a \<in> seen then Some (None, seen) else None)"
| "findPriceInObject (Suc n) S h (Ref a) seen =
     (if a \<in> seen then Some (None, seen)
      else case findFieldRecursive (Suc n) h (Ref a) tabelaFields (insert a seen) [] of
        None \<Rightarrow> None
      | Some (tabelaFound, seen1) \<Rightarrow>
          (case level_price S tabelaFound (entries (deref h a)) of
             Some parsed \<Rightarrow> Some (Some parsed, seen1)
           | None \<Rightarrow>
               (case fpo_elements n S h (elements (deref h a)) seen1 of
                  None \<Rightarrow> None
                | Some (Some nested, seen2) \<Rightarrow> Some (Some nested, seen2)
                | Some (None, seen2) \<Rightarrow> fpo_values n S h (entries (deref h a)) seen2)))"
| "fpo_elements n S h [] seen = Some (None, seen)"
| "fpo_elements n S h (el # els) seen =
     (case findPriceInObject n S h el seen of
        None \<Rightarrow> None
      | Some (nested, seen') \<Rightarrow>
          if positive nested then Some (nested, seen') else fpo_elements n S h els seen')"
| "fpo_values n S h [] seen = Some (None, seen)"
| "fpo_values n S h ((k, Ref a) # kvs) seen =
     (case findPriceInObject n S h (Ref a) seen of
        None \<Rightarrow> None
      | Some (nested, seen') \<Rightarrow>
          if positive nested then Some (nested, seen') else fpo_values n S h kvs seen')"
| "fpo_values n S h ((k, val) # kvs) seen =
     (if positive (parseToNumber S val) then Some (parseToNumber S val, seen)
      else fpo_values n S h kvs seen)"
  by pat_completeness auto
termination
  by (relation "inv_image (less_than <*lex*> less_than)
        (\<lambda>x. case x of
           Inl (n, S, h, v, seen) \<Rightarrow> (n, 0)
         | Inr (Inl (n, S, h, els, seen)) \<Rightarrow> (n, Suc (length els))
         | Inr (Inr (n, S, h, kvs, seen)) \<Rightarrow> (n, Suc (length kvs)))") auto

definition normalize_precoBase :: "nat \<Rightarrow> (nat \<Rightarrow> string) \<Rightarrow> heap \<Rightarrow> jsval \<Rightarrow> jsnum option option" where
  \<comment> \<open>the field \<open>precoBase\<close> that \<open>normalize\<close> computes for the raw record \<open>it\<close> (which is not
      \<open>null\<close> or \<open>undefined\<close>: \<open>normalize\<close> reads \<open>it.id\<close> first); both searches start from a
      new \<open>seen\<close>\<close>
  "normalize_precoBase n S h it =
     (case findFieldRecursive n h it tabelaFields {} [] of
        None \<Rightarrow> None
      | Some (tabelaFound, _) \<Rightarrow>
          (let precoBaseFound = (case tabelaFound of Some (k, v, p) \<Rightarrow> parseToNumber S v | None \<Rightarrow> None)
           in if (case precoBaseFound of None \<Rightarrow> True | Some x \<Rightarrow> \<not> truthy_num x \<or> js_le x (Fin 0))
              then (case findPriceInObject n S h it {} of
                      None \<Rightarrow> None
                    | Some (nested, _) \<Rightarrow>
                        Some (if (case nested of Some x \<Rightarrow> truthy_num x | None \<Rightarrow> False) then nested
                              else precoBaseFound))
              else Some precoBaseFound))"

definition objectString :: "nat \<Rightarrow> string" where
  \<comment> \<open>\<open>String(o)\<close> when every container is a plain object\<close>
  "objectString a = ''[object Object]''"

section \<open>Order lines and the submission gate\<close>

record product =
  p_id :: string
  p_nome :: string
  p_peso :: jsval
  p_codigo :: jsval
  p_precoMin :: "jsnum option"

record row =
  row_id :: string
  produtoId :: "string option"
  produtoNome :: string
  peso :: jsval
  codigo :: jsval
  quantidade :: jsnum
  precoUnit :: string
  precoMin :: jsnum

definition addRow :: "string \<Rightarrow> product option \<Rightarrow> jsnum \<Rightarrow> row list \<Rightarrow> row list" where
  \<comment> \<open>\<open>newId\<close> stands for the identifier drawn from the clock and \<open>Math.random\<close>\<close>
  "addRow newId selectedProduct qty prev = prev @
     [\<lparr>row_id = newId,
       produtoId = (case selectedProduct of Some p \<Rightarrow> Some (p_id p) | None \<Rightarrow> None),
       produtoNome = (case selectedProduct of Some p \<Rightarrow> p_nome p | None \<Rightarrow> []),
       peso = (case selectedProduct of Some p \<Rightarrow> p_peso p | None \<Rightarrow> Null),
       codigo = (case selectedProduct of Some p \<Rightarrow> p_codigo p | None \<Rightarrow> Null),
       quantidade = qty,
       precoUnit = [],
       precoMin = (case selectedProduct of
                     Some p \<Rightarrow> (case p_precoMin p of Some m \<Rightarrow> m | None \<Rightarrow> PRECO_MIN_FALLBACK)
                   | None \<Rightarrow> PRECO_MIN_FALLBACK)\<rparr>]"

definition removeRow :: "string \<Rightarrow> row list \<Rightarrow> row list" where
  "removeRow i prev = filter (\<lambda>r. row_id r \<noteq> i) prev"

definition onQuantidadeChange :: "string \<Rightarrow> jsnum \<Rightarrow> row list \<Rightarrow> row list" where
  "onQuantidadeChange i q prev = map (\<lambda>r. if row_id r = i then r\<lparr>quantidade := q\<rparr> else r) prev"

definition onPrecoUnitChange :: "string \<Rightarrow> string \<Rightarrow> row list \<Rightarrow> row list" where
  "onPrecoUnitChange i preco prev = map (\<lambda>r. if row_id r = i then r\<lparr>precoUnit := preco\<rparr> else r) prev"

definition quantidade_onChange :: "string \<Rightarrow> string \<Rightarrow> row list \<Rightarrow> row list" where
  \<comment> \<open>the handler of the quantity field: \<open>onQuantidadeChange(r.id, Number(e.target.value || 1))\<close>\<close>
  "quantidade_onChange i v prev = onQuantidadeChange i (if v = [] then Fin 1 else js_Number v) prev"

definition entered_price :: "row \<Rightarrow> jsnum" where
  \<comment> \<open>\<open>parseFloat(r.precoUnit || 0)\<close>\<close>
  "entered_price r = (if precoUnit r = [] then Fin 0 else js_parseFloat (precoUnit r))"

definition effective_min :: "row \<Rightarrow> jsnum" where
  \<comment> \<open>\<open>Number(r.precoMin) || PRECO_MIN_FALLBACK\<close>\<close>
  "effective_min r = (if truthy_num (precoMin r) then precoMin r else PRECO_MIN_FALLBACK)"

definition priceBelowMinExists :: "row list \<Rightarrow> bool" where
  "priceBelowMinExists rows =
     list_ex (\<lambda>r. js_gt (entered_price r) (Fin 0) \<and> js_lt (entered_price r) (effective_min r)) rows"

definition example_row :: "string \<Rightarrow> jsnum \<Rightarrow> row" where
  \<comment> \<open>a line as \<open>addRow\<close> creates it, with the given entered price and minimum price\<close>
  "example_row preco pmin =
     \<lparr>row_id = ''r1'', produtoId = None, produtoNome = [], peso = Null, codigo = Null,
      quantidade = Fin 1, precoUnit = preco, precoMin = pmin\<rparr>"

section \<open>The rounding rule in the words of the specification\<close>

definition round_half_away :: "rat \<Rightarrow> rat" where
  \<comment> \<open>nearest integer, ties away from zero\<close>
  "round_half_away x = (if 0 \<le> x then of_int \<lfloor>x + 1/2\<rfloor> else - of_int \<lfloor>- x + 1/2\<rfloor>)"

definition spec_deriveMinimum :: "rat \<Rightarrow> rat" where
  \<comment> \<open>section 4.4 of the specification, in exact arithmetic: 115% of a positive base price, rounded to cents\<close>
  "spec_deriveMinimum b = (if b \<le> 0 then 15 else round_half_away (b * (115 / 100) * 100) / 100)"

section \<open>Example records and the measure of the searches\<close>

definition unseen :: "heap \<Rightarrow> nat set \<Rightarrow> nat set" where
  "unseen h seen = {a. a < length h} - seen"

definition example_nested :: heap where
  "example_nested = [Obj [(''a'', Ref 1)], Obj [(''b'', Ref 2)], Obj [(''Preco_ens'', JStr ''50,00'')]]"

definition example_shadowed :: heap where
  "example_shadowed = [Obj [(''Preco_ens'', JStr []), (''a'', Ref 1)], Obj [(''Preco_ens'', JStr ''50,00'')]]"

definition example_first_level :: heap where
  "example_first_level = [Obj [(''x'', Ref 1), (''Preco_ens'', JStr ''50,00'')], Obj [(''Preco_ens'', JStr ''1'')]]"

definition example_no_match :: heap where
  "example_no_match = [Obj [(''id'', JStr ''7''), (''x'', Ref 1)], Obj [(''y'', Ref 0)]]"

definition example_sub :: heap where
  "example_sub = [Obj [(''valor'', JStr ''999''), (''x'', Ref 1)], Obj [(''Preco_med_prod'', JStr ''80'')]]"

definition example_deep :: heap where
  "example_deep = [Obj [(''Preco_ens'', JStr ''abc''), (''a'', Ref 1)],
                   Obj [(''valor'', JStr ''999''), (''x'', Ref 2)],
                   Obj [(''Preco_med_prod'', JStr ''80'')]]"

section \<open>Fields and values of a record\<close>






section \<open>Cycle-free equivalent of a record\<close>












section \<open>Rounding to binary64: bounds and monotonicity\<close>

lemma pow2_bitlen:
  assumes "0 < (p::int)"
  shows "(2::rat) powi (bitlen p - 1) \<le> of_int p" "of_int p < (2::rat) powi (bitlen p)"
proof -
  from bitlen_bounds[OF assms] have a: "2 ^ nat (bitlen p - 1) \<le> p" and b: "p < 2 ^ nat (bitlen p)" by auto
  have bl: "1 \<le> bitlen p" using assms by (simp add: bitlen_alt_def)
  have "(of_int (2 ^ nat (bitlen p - 1)) :: rat) \<le> of_int p" using a by (subst of_int_le_iff)
  then show "(2::rat) powi (bitlen p - 1) \<le> of_int p" using bl by (simp add: power_int_def)
  have "(of_int p :: rat) < of_int (2 ^ nat (bitlen p))" using b by (subst of_int_less_iff)
  then show "of_int p < (2::rat) powi (bitlen p)" using bl by (simp add: power_int_def)
qed

lemma ilog2_bounds:
  assumes "0 < x"
  shows "2 powi (ilog2 x) \<le> x \<and> x < 2 powi (ilog2 x + 1)"
proof -
  obtain p q where pq: "quotient_of x = (p, q)" by (cases "quotient_of x")
  then have q: "0 < q" and x: "x = of_int p / of_int q"
    using quotient_of_denom_pos quotient_of_div by auto
  with assms have p: "0 < p" by (simp add: zero_less_divide_iff)
  let ?k = "bitlen p - bitlen q"
  have "x < 2 powi (?k + 1)"
  proof -
    have "of_int p < (2::rat) powi (bitlen p)" using pow2_bitlen[OF p] by simp
    moreover have "(2::rat) powi (bitlen q - 1) \<le> of_int q" using pow2_bitlen[OF q] by simp
    ultimately have "of_int p * (2::rat) powi (bitlen q - 1) < 2 powi (bitlen p) * of_int q"
      using p q by (intro mult_less_le_imp_less) auto
    then have "x * (2::rat) powi (bitlen q - 1) < 2 powi (bitlen p)"
      using q by (simp add: x field_simps)
    then have "x < 2 powi (bitlen p) / 2 powi (bitlen q - 1)"
      by (simp add: field_simps)
    also have "\<dots> = 2 powi (?k + 1)"
      using power_int_diff[of "2::rat" "bitlen p" "bitlen q - 1"] by (simp add: algebra_simps)
    finally show ?thesis .
  qed
  moreover have "\<not> 2 powi ?k \<le> x \<Longrightarrow> 2 powi (?k - 1) \<le> x"
  proof -
    have "(2::rat) powi (bitlen p - 1) \<le> of_int p" using pow2_bitlen[OF p] by simp
    moreover have "of_int q < (2::rat) powi (bitlen q)" using pow2_bitlen[OF q] by simp
    ultimately have "(2::rat) powi (bitlen p - 1) * of_int q \<le> of_int p * 2 powi (bitlen q)"
      using p q by (intro mult_mono) auto
    then have "(2::rat) powi (bitlen p - 1) \<le> x * 2 powi (bitlen q)"
      using q by (simp add: x field_simps)
    then have "2 powi (bitlen p - 1) / 2 powi (bitlen q) \<le> x"
      by (simp add: field_simps)
    moreover have "(2::rat) powi (bitlen p - 1) / 2 powi (bitlen q) = 2 powi (?k - 1)"
      using power_int_diff[of "2::rat" "bitlen p - 1" "bitlen q"] by (simp add: algebra_simps)
    ultimately show "2 powi (?k - 1) \<le> x" by simp
  qed
  ultimately show ?thesis
    by (auto simp: ilog2_def pq Let_def)
qed

lemma pow2_int_mono: "a \<le> b \<Longrightarrow> (2::rat) powi a \<le> 2 powi b"
  by (rule power_int_increasing) auto

lemma ilog2_unique:
  assumes "0 < x" "2 powi e \<le> x" "x < 2 powi (e + 1)"
  shows "ilog2 x = e"
proof -
  from ilog2_bounds[OF assms(1)] have b: "2 powi (ilog2 x) \<le> x" "x < 2 powi (ilog2 x + 1)" by auto
  have "\<not> ilog2 x + 1 \<le> e"
  proof
    assume "ilog2 x + 1 \<le> e"
    then have "(2::rat) powi (ilog2 x + 1) \<le> 2 powi e" by (rule pow2_int_mono)
    with b assms show False by linarith
  qed
  moreover have "\<not> e + 1 \<le> ilog2 x"
  proof
    assume "e + 1 \<le> ilog2 x"
    then have "(2::rat) powi (e + 1) \<le> 2 powi (ilog2 x)" by (rule pow2_int_mono)
    with b assms show False by linarith
  qed
  ultimately show ?thesis by linarith
qed

lemma ilog2_mono:
  assumes "0 < x" "x \<le> y"
  shows "ilog2 x \<le> ilog2 y"
proof (rule ccontr)
  assume "\<not> ilog2 x \<le> ilog2 y"
  then have "ilog2 y + 1 \<le> ilog2 x" by simp
  then have "(2::rat) powi (ilog2 y + 1) \<le> 2 powi (ilog2 x)" by (rule pow2_int_mono)
  moreover from assms have "0 < y" by simp
  ultimately show False
    using ilog2_bounds[OF assms(1)] ilog2_bounds[OF \<open>0 < y\<close>] assms(2) by linarith
qed


lemma rne_ge: "of_int n \<le> x \<Longrightarrow> n \<le> rne x"
  unfolding rne_def Let_def by (auto simp: le_floor_iff) linarith+

lemma rne_le: "x \<le> of_int n \<Longrightarrow> rne x \<le> n"
proof -
  assume a: "x \<le> of_int n"
  have f: "\<lfloor>x\<rfloor> \<le> n" using a by (simp add: floor_le_iff) 
  show ?thesis
  proof (cases "\<lfloor>x\<rfloor> = n")
    case True
    then have "x = of_int n" using a by (metis of_int_floor_le order_antisym)
    then show ?thesis by (simp add: rne_def)
  next
    case False
    with f have "\<lfloor>x\<rfloor> + 1 \<le> n" by simp
    then show ?thesis unfolding rne_def Let_def by auto
  qed
qed

lemma rne_mono: "x \<le> y \<Longrightarrow> rne x \<le> rne y"
proof -
  assume a: "x \<le> y"
  have f: "\<lfloor>x\<rfloor> \<le> \<lfloor>y\<rfloor>" using a by (rule floor_mono)
  show ?thesis
  proof (cases "\<lfloor>x\<rfloor> = \<lfloor>y\<rfloor>")
    case True
    then show ?thesis using a unfolding rne_def Let_def by auto
  next
    case False
    with f have "\<lfloor>x\<rfloor> + 1 \<le> \<lfloor>y\<rfloor>" by simp
    moreover have "rne x \<le> \<lfloor>x\<rfloor> + 1" unfolding rne_def Let_def by auto
    moreover have "\<lfloor>y\<rfloor> \<le> rne y" unfolding rne_def Let_def by auto
    ultimately show ?thesis by linarith
  qed
qed

lemma quantum_pos: "0 < quantum a"
  by (simp add: quantum_def)

lemma round64_nonneg: "0 \<le> a \<Longrightarrow> 0 \<le> round64 a"
proof -
  assume "0 \<le> a"
  then have "of_int 0 \<le> a / quantum a" using quantum_pos[of a] by simp
  then have "0 \<le> rne (a / quantum a)" by (rule rne_ge)
  then show ?thesis using quantum_pos[of a] by (simp add: round64_def)
qed

lemma round64_upper:
  assumes "0 < x" "x \<le> 2 powi (e + 1)" "e = max (ilog2 x) (- 1022)"
  shows "round64 x \<le> 2 powi (e + 1)"
proof -
  have q: "quantum x = 2 powi (e - 52)" by (simp add: quantum_def assms(3))
  have "x / quantum x \<le> 2 powi (e + 1) / 2 powi (e - 52)"
    using assms(2) by (simp add: q divide_right_mono)
  also have "\<dots> = 2 powi 53"
    using power_int_diff[of "2::rat" "e + 1" "e - 52"] by simp
  also have "\<dots> = of_int (2 ^ 53)" by simp
  finally have "rne (x / quantum x) \<le> 2 ^ 53" by (rule rne_le)
  then have "(of_int (rne (x / quantum x)) :: rat) \<le> of_int (2 ^ 53)" by (subst of_int_le_iff)
  then have "round64 x \<le> of_int (2 ^ 53) * 2 powi (e - 52)"
    unfolding round64_def q by (intro mult_right_mono) auto
  also have "\<dots> = 2 powi (e + 1)"
    using power_int_add[of "2::rat" 53 "e - 52"] by (simp add: algebra_simps)
  finally show ?thesis .
qed

lemma round64_lower:
  assumes "0 < x" "2 powi e \<le> x" "e = max (ilog2 x) (- 1022)"
  shows "2 powi e \<le> round64 x"
proof -
  have q: "quantum x = 2 powi (e - 52)" by (simp add: quantum_def assms(3))
  have "2 powi e / 2 powi (e - 52) \<le> x / quantum x"
    using assms(2) by (simp add: q divide_right_mono)
  moreover have "(2::rat) powi e / 2 powi (e - 52) = 2 powi 52"
    using power_int_diff[of "2::rat" "e" "e - 52"] by simp
  moreover have "(2::rat) powi 52 = of_int (2 ^ 52)" by simp
  ultimately have "of_int (2 ^ 52) \<le> x / quantum x" by simp
  then have "2 ^ 52 \<le> rne (x / quantum x)" by (rule rne_ge)
  then have "(of_int (2 ^ 52) :: rat) \<le> of_int (rne (x / quantum x))" by (subst of_int_le_iff)
  then have "of_int (2 ^ 52) * 2 powi (e - 52) \<le> round64 x"
    unfolding round64_def q by (intro mult_right_mono) auto
  moreover have "(of_int (2 ^ 52) :: rat) * 2 powi (e - 52) = 2 powi e"
    using power_int_add[of "2::rat" 52 "e - 52"] by (simp add: algebra_simps)
  ultimately show ?thesis by simp
qed

lemma round64_mono:
  assumes "0 < x" "x \<le> y"
  shows "round64 x \<le> round64 y"
proof -
  from assms have y: "0 < y" by simp
  let ?ex = "max (ilog2 x) (- 1022)" and ?ey = "max (ilog2 y) (- 1022)"
  have le: "?ex \<le> ?ey" using ilog2_mono[OF assms] by simp
  show ?thesis
  proof (cases "?ex = ?ey")
    case True
    then have q: "quantum x = quantum y" by (simp add: quantum_def)
    have "x / quantum y \<le> y / quantum y"
      using assms(2) quantum_pos[of y] by (simp add: divide_right_mono)
    then have "rne (x / quantum y) \<le> rne (y / quantum y)" by (rule rne_mono)
    then have "(of_int (rne (x / quantum y)) :: rat) \<le> of_int (rne (y / quantum y))"
      by (subst of_int_le_iff)
    then show ?thesis
      unfolding round64_def q using quantum_pos[of y] by (intro mult_right_mono) auto
  next
    case False
    with le have lt: "?ex + 1 \<le> ?ey" by simp
    then have ey: "?ey = ilog2 y" by simp
    have "x < 2 powi (ilog2 x + 1)" using ilog2_bounds[OF assms(1)] by simp
    also have "\<dots> \<le> 2 powi (?ex + 1)" by (rule pow2_int_mono) simp
    finally have "round64 x \<le> 2 powi (?ex + 1)"
      using round64_upper[OF assms(1), of ?ex] by simp
    also have "\<dots> \<le> 2 powi ?ey" using lt by (rule pow2_int_mono)
    also have "\<dots> \<le> round64 y"
      using round64_lower[OF y, of ?ey] ilog2_bounds[OF y] ey by simp
    finally show ?thesis .
  qed
qed

lemma fl_not_NaN [simp]: "fl x \<noteq> NaN"
  by (simp add: fl_def Let_def)

lemma fl_0 [simp]: "fl 0 = Fin 0"
  by (simp add: fl_def)

lemma rne_eqI: "of_int m - 1/2 < x \<Longrightarrow> x < of_int m + 1/2 \<Longrightarrow> rne x = m"
proof -
  assume a: "of_int m - 1/2 < x" "x < of_int m + 1/2"
  show ?thesis
  proof (cases "of_int m \<le> x")
    case True
    then have "\<lfloor>x\<rfloor> = m" using a by (intro floor_unique) auto
    then show ?thesis using a by (simp add: rne_def)
  next
    case False
    then have "\<lfloor>x\<rfloor> = m - 1" using a by (intro floor_unique) auto
    then show ?thesis using a False by (simp add: rne_def)
  qed
qed

lemma fl_eval:
  assumes "0 < x" "2 powi e \<le> x" "x < 2 powi (e + 1)" "- 1022 \<le> e" "e \<le> 1022"
    and "of_int m - 1/2 < x / 2 powi (e - 52)" "x / 2 powi (e - 52) < of_int m + 1/2"
  shows "fl x = Fin (of_int m * 2 powi (e - 52))"
proof -
  have il: "ilog2 x = e" using assms(1-3) by (rule ilog2_unique)
  have mx: "max e (- 1022) = e" using assms(4) by simp
  then have m: "e = max (ilog2 x) (- 1022)" using il by simp
  have q: "quantum x = 2 powi (e - 52)" unfolding quantum_def il mx ..
  have "round64 x \<le> 2 powi (e + 1)"
    using round64_upper[OF assms(1) _ m] assms(3) by simp
  also have "\<dots> \<le> 2 powi 1023" using assms(5) by (intro pow2_int_mono) simp
  also have "\<dots> < 2 ^ 1024" by simp
  finally have "\<not> 2 ^ 1024 \<le> round64 x" by simp
  moreover have "rne (x / 2 powi (e - 52)) = m" using assms(6,7) by (rule rne_eqI)
  ultimately show ?thesis using assms(1) by (simp add: fl_def Let_def round64_def q)
qed


lemma fl_10: "fl 10 = Fin 10"
  using fl_eval[of 10 3 "10 * 2 ^ 49"] by simp

lemma fl_20: "fl 20 = Fin 20"
  using fl_eval[of 20 4 "20 * 2 ^ 48"] by simp

lemma fl_80: "fl 80 = Fin 80"
  using fl_eval[of 80 6 "80 * 2 ^ 46"] by simp

lemma fl_115: "fl 115 = Fin 115"
  using fl_eval[of 115 6 "115 * 2 ^ 46"] by simp

lemma fl_999: "fl 999 = Fin 999"
  using fl_eval[of 999 9 "999 * 2 ^ 43"] by simp

lemma fl_1_15: "fl (115 / 100) = Fin (2589569785738035 / 2251799813685248)"
  using fl_eval[of "115/100" 0 5179139571476070] by simp

lemma fl_0_57: "fl (57 / 100) = Fin (5134103575202365 / 9007199254740992)"
  using fl_eval[of "57/100" "-1" 5134103575202365] by simp

lemma fl_0_58: "fl (58 / 100) = Fin (5224175567749775 / 9007199254740992)"
  using fl_eval[of "58/100" "-1" 5224175567749775] by simp

lemma fl_23_20: "fl (23 / 20) = Fin (2589569785738035 / 2251799813685248)"
  using fl_1_15 by simp

lemma fl_half_c: "fl (2589569785738035 / 4503599627370496) = Fin (2589569785738035 / 4503599627370496)"
  using fl_eval[of "2589569785738035 / 4503599627370496" "-1" 5179139571476070] by simp

lemma fl_50c: "fl (64739244643450875 / 1125899906842624) = Fin (8092405580431359 / 140737488355328)"
  using fl_eval[of "64739244643450875 / 1125899906842624" 5 8092405580431359] by simp

lemma fl_100c: "fl (64739244643450875 / 562949953421312) = Fin (8092405580431359 / 70368744177664)"
  using fl_eval[of "64739244643450875 / 562949953421312" 6 8092405580431359] by simp

lemma fl_10000c: "fl (202310139510783975 / 17592186044416) = Fin (6322191859711999 / 549755813888)"
  using fl_eval[of "202310139510783975 / 17592186044416" 13 6322191859711999] by simp

lemma fl_c: "fl (2589569785738035 / 2251799813685248) = Fin (2589569785738035 / 2251799813685248)"
  using fl_eval[of "2589569785738035 / 2251799813685248" 0 5179139571476070] by simp

lemma floor_rat_numeral: "\<lfloor>(numeral a :: rat) / numeral b\<rfloor> = numeral a div numeral b"
  using floor_divide_of_int_eq[of "numeral a" "numeral b", where ?'a = rat] by simp

lemmas calc_defs = calcPrecoMinFromBase_def PRECO_MIN_FALLBACK_def truthy_num_def js_le_def floor_rat_numeral

lemma calc_half: "calcPrecoMinFromBase S (JNum (Fin (1/2))) = fl (57 / 100)"
  by (simp add: calc_defs fl_23_20 fl_half_c fl_50c)

lemma calc_100: "calcPrecoMinFromBase S (JNum (Fin 100)) = Fin 115"
  by (simp add: calc_defs fl_23_20 fl_100c fl_10000c fl_115)

lemma calc_1: "calcPrecoMinFromBase S (JNum (Fin 1)) = Fin (2589569785738035 / 2251799813685248)"
  by (simp add: calc_defs fl_23_20 fl_100c fl_c)

section \<open>Monotonicity of the arithmetic\<close>

lemma js_le_Fin [simp]: "js_le (Fin a) (Fin b) = (a \<le> b)"
  by (auto simp: js_le_def)

lemma js_le_PInf [simp]: "js_le x PInf = (x \<noteq> NaN)"
  by (cases x) (auto simp: js_le_def)

lemma js_le_PInf_left [simp]: "js_le PInf y = (y = PInf)"
  by (cases y) (auto simp: js_le_def)

lemma js_le_NaN [simp]: "js_le x NaN = False" "js_le NaN y = False"
  by (cases x; simp add: js_le_def)+

lemma js_le_Fin_NInf [simp]: "js_le (Fin a) NInf = False"
  by (simp add: js_le_def)

lemma fl_mono_nonneg:
  assumes "0 \<le> x" "x \<le> y"
  shows "js_le (fl x) (fl y)"
proof (cases "x = 0")
  case True
  then show ?thesis using assms round64_nonneg[of "\<bar>y\<bar>"] by (auto simp: fl_def Let_def)
next
  case False
  with assms have x: "0 < x" and y: "0 < y" by auto
  from round64_mono[OF x assms(2)] show ?thesis
    using x y by (auto simp: fl_def Let_def)
qed

lemma fl_nonneg: "0 \<le> x \<Longrightarrow> js_le (Fin 0) (fl x)"
  using fl_mono_nonneg[of 0 x] by simp

lemma js_mul_mono:
  assumes "js_le (Fin 0) X" "js_le X Y" "0 < c"
  shows "js_le (js_mul X (Fin c)) (js_mul Y (Fin c)) \<and> js_le (Fin 0) (js_mul X (Fin c))"
proof (cases X)
  case (Fin a)
  with assms(1) have a: "0 \<le> a" by simp
  show ?thesis
  proof (cases Y)
    case (Fin b)
    with assms(2) \<open>X = Fin a\<close> have "a \<le> b" by simp
    then show ?thesis using a assms(3) Fin \<open>X = Fin a\<close>
      by (simp add: fl_mono_nonneg fl_nonneg)
  qed (use assms a Fin in \<open>auto simp: fl_nonneg\<close>)
qed (use assms in \<open>auto\<close>)

lemma js_round_mono:
  assumes "js_le (Fin 0) X" "js_le X Y"
  shows "js_le (js_round X) (js_round Y) \<and> js_le (Fin 0) (js_round X)"
proof (cases X)
  case (Fin a)
  with assms(1) have a: "0 \<le> a" by simp
  then have f: "0 \<le> \<lfloor>a + 1 / 2\<rfloor>" by simp
  show ?thesis
  proof (cases Y)
    case (Fin b)
    with assms(2) \<open>X = Fin a\<close> have "a \<le> b" by simp
    then have "\<lfloor>a + 1 / 2\<rfloor> \<le> \<lfloor>b + 1 / 2\<rfloor>" by (intro floor_mono) simp
    then show ?thesis using f Fin \<open>X = Fin a\<close> by simp
  qed (use assms f Fin in \<open>auto\<close>)
qed (use assms in \<open>auto\<close>)

lemma js_div_mono:
  assumes "js_le (Fin 0) X" "js_le X Y" "0 < c"
  shows "js_le (js_div X (Fin c)) (js_div Y (Fin c))"
proof (cases X)
  case (Fin a)
  with assms(1) have a: "0 \<le> a" by simp
  show ?thesis
  proof (cases Y)
    case (Fin b)
    with assms(2) \<open>X = Fin a\<close> have "a \<le> b" by simp
    then have "a / c \<le> b / c" using assms(3) by (simp add: divide_right_mono)
    then show ?thesis using a assms(3) Fin \<open>X = Fin a\<close>
      by (simp add: fl_mono_nonneg)
  qed (use assms a Fin in \<open>auto\<close>)
qed (use assms in \<open>auto\<close>)

lemma calc_positive:
  assumes "js_lt (Fin 0) b"
  shows "calcPrecoMinFromBase S (JNum b) =
    js_div (js_round (js_mul (js_mul b (Fin (2589569785738035 / 2251799813685248))) (Fin 100))) (Fin 100)"
  using assms by (cases b) (auto simp: calcPrecoMinFromBase_def truthy_num_def js_le_def fl_23_20)

lemma calc_mono:
  assumes "js_lt (Fin 0) b1" "js_le b1 b2"
  shows "js_le (calcPrecoMinFromBase S (JNum b1)) (calcPrecoMinFromBase S (JNum b2))"
proof -
  have p1: "js_le (Fin 0) b1" using assms(1) by (simp add: js_le_def)
  have p2: "js_lt (Fin 0) b2" using assms by (cases b1; cases b2) (auto simp: js_le_def)
  note m1 = js_mul_mono[OF p1 assms(2), of "2589569785738035 / 2251799813685248"]
  have m2: "js_le (js_mul (js_mul b1 (Fin (2589569785738035 / 2251799813685248))) (Fin 100))
                  (js_mul (js_mul b2 (Fin (2589569785738035 / 2251799813685248))) (Fin 100))
          \<and> js_le (Fin 0) (js_mul (js_mul b1 (Fin (2589569785738035 / 2251799813685248))) (Fin 100))"
    using m1 by (intro js_mul_mono) simp_all
  have m3: "js_le (js_round (js_mul (js_mul b1 (Fin (2589569785738035 / 2251799813685248))) (Fin 100)))
                  (js_round (js_mul (js_mul b2 (Fin (2589569785738035 / 2251799813685248))) (Fin 100)))
          \<and> js_le (Fin 0) (js_round (js_mul (js_mul b1 (Fin (2589569785738035 / 2251799813685248))) (Fin 100)))"
    using m2 by (intro js_round_mono) simp_all
  show ?thesis
    unfolding calc_positive[OF assms(1)] calc_positive[OF p2]
    using m3 by (intro js_div_mono) simp_all
qed

lemma calc_fallback:
  "calcPrecoMinFromBase S Null = PRECO_MIN_FALLBACK"
  "calcPrecoMinFromBase S Undefined = PRECO_MIN_FALLBACK"
  "js_le b (Fin 0) \<Longrightarrow> calcPrecoMinFromBase S (JNum b) = PRECO_MIN_FALLBACK"
  "calcPrecoMinFromBase S (JNum NaN) = PRECO_MIN_FALLBACK"
  by (simp_all add: calcPrecoMinFromBase_def truthy_num_def)

section \<open>Evaluation of the conversions on literals\<close>

lemmas lit_defs = js_Number_def js_parseFloat_def trim_def is_space_def is_digit_def
  str_non_decimal_def str_decimal_def str_unsigned_decimal_def exponent_part_def digits_val_def

lemmas parse_defs = parse_string_def replace_first_def or_null_def

lemma fl_1: "fl 1 = Fin 1"
  using fl_eval[of 1 0 "2 ^ 52"] by simp

lemma fl_truthy: "1 \<le> x \<Longrightarrow> truthy_num (fl x)"
  using fl_mono_nonneg[of 1 x] by (cases "fl x") (auto simp: fl_1 truthy_num_def)

lemma Number_1234_56: "js_Number ''1234.56'' = fl (123456 / 100)"
  by (simp add: lit_defs)

lemma Number_19_9: "js_Number ''19.9'' = fl (199 / 10)"
  by (simp add: lit_defs)

lemma Number_19_90: "js_Number ''19.90'' = fl (199 / 10)"
  by (simp add: lit_defs)

lemma Number_0_00: "js_Number ''0.00'' = Fin 0"
  by (simp add: lit_defs)

lemma Number_0_0: "js_Number ''0.0'' = Fin 0"
  by (simp add: lit_defs)

lemma Number_80: "js_Number ''80'' = Fin 80"
  by (simp add: lit_defs fl_80)

lemma Number_999: "js_Number ''999'' = Fin 999"
  by (simp add: lit_defs fl_999)

lemma Number_0: "js_Number ''0'' = Fin 0"
  by (simp add: lit_defs)

lemma parseFloat_10: "js_parseFloat ''10'' = Fin 10"
  by (simp add: lit_defs fl_10)

lemma parseFloat_20: "js_parseFloat ''20'' = Fin 20"
  by (simp add: lit_defs fl_20)

lemma parse_1234_56: "parse_string ''R$ 1.234,56'' = Some (fl (123456 / 100))"
  by (simp add: parse_defs trim_def is_space_def Number_1234_56 fl_truthy)

lemma parse_19c9: "parse_string ''19,9'' = Some (fl (199 / 10))"
  by (simp add: parse_defs trim_def is_space_def Number_19_9 fl_truthy)

lemma parse_19_9: "parse_string ''19.9'' = Some (fl (199 / 10))"
  by (simp add: parse_defs trim_def is_space_def Number_19_9)

lemma parse_19_90: "parse_string ''19.90'' = Some (fl (199 / 10))"
  by (simp add: parse_defs trim_def is_space_def Number_19_90)

lemma parse_0c00: "parse_string ''0,00'' = None"
  by (simp add: parse_defs trim_def is_space_def Number_0_00 truthy_num_def)

lemma parse_0c0: "parse_string ''0,0'' = None"
  by (simp add: parse_defs trim_def is_space_def Number_0_0 truthy_num_def)

lemma parse_0_00: "parse_string ''0.00'' = Some (Fin 0)"
  by (simp add: parse_defs trim_def is_space_def Number_0_00 truthy_num_def)

lemma parse_80: "parse_string ''80'' = Some (Fin 80)"
  by (simp add: parse_defs trim_def is_space_def Number_80 truthy_num_def)

lemma parse_999: "parse_string ''999'' = Some (Fin 999)"
  by (simp add: parse_defs trim_def is_space_def Number_999 truthy_num_def)

section \<open>Numeric parser\<close>

text \<open>
  C5. The numeric parser on the required examples: \<open>"R$ 1.234,56"\<close> gives the number that the
  literal 1234.56 denotes, \<open>"19,9"\<close>, \<open>"19.9"\<close> and \<open>"19.90"\<close> give the number 19.9, the
  empty string gives no value. On an absent input it returns no value and on a number the
  number itself; it is a total function of its input, the source having no operation that
  throws on an absent input, a number or a string.
\<close>

theorem parseToNumber_examples:
  "parseToNumber S (JStr ''R$ 1.234,56'') = Some (fl (123456 / 100)) \<and>
   parseToNumber S (JStr ''19,9'') = Some (fl (199 / 10)) \<and>
   parseToNumber S (JStr ''19.9'') = Some (fl (199 / 10)) \<and>
   parseToNumber S (JStr ''19.90'') = Some (fl (199 / 10)) \<and>
   parseToNumber S (JStr []) = None \<and>
   parseToNumber S Null = None \<and>
   parseToNumber S Undefined = None \<and>
   parseToNumber S (JNum n) = Some n"
  by (simp add: parse_1234_56 parse_19c9 parse_19_9 parse_19_90)

text \<open>
  C6. A string that denotes zero with a decimal comma, such as \<open>"0,00"\<close> or \<open>"0,0"\<close>, should
  parse to the number 0. The two branches for strings with a comma end in
  \<open>Number(...) || null\<close>, which turns the number 0 into no value; the branch for strings
  without a comma tests \<open>isNaN\<close> and returns 0 for \<open>"0.00"\<close>.
\<close>

theorem parseToNumber_zero_with_comma:
  "parseToNumber S (JStr ''0,00'') = None \<and>
   parseToNumber S (JStr ''0,0'') = None \<and>
   parseToNumber S (JStr ''0.00'') = Some (Fin 0)"
  by (simp add: parse_0c00 parse_0c0 parse_0_00)

section \<open>Minimum price\<close>

text \<open>
  C3. For the base price 0.5 the specification asks for 0.575 rounded half away from zero
  to cents, 0.58. The source computes \<open>Math.round(b * 1.15 * 100) / 100\<close> in binary64:
  the product \<open>0.5 * 1.15 * 100\<close> is 57.49999999999999, which rounds to 57, and the result
  is the number 0.57.
\<close>

theorem calcPrecoMinFromBase_half_cent:
  "calcPrecoMinFromBase S (JNum (Fin (1 / 2))) = fl (57 / 100) \<and>
   spec_deriveMinimum (1 / 2) = 58 / 100 \<and>
   calcPrecoMinFromBase S (JNum (Fin (1 / 2))) \<noteq> fl (spec_deriveMinimum (1 / 2))"
proof -
  have sd: "spec_deriveMinimum (1 / 2) = 58 / 100"
    by (simp add: spec_deriveMinimum_def round_half_away_def floor_rat_numeral)
  have ne: "fl (57 / 100) \<noteq> fl (58 / 100)"
    unfolding fl_0_57 fl_0_58 by simp
  show ?thesis
    unfolding calc_half sd using ne by (intro conjI) (rule refl | assumption)+
qed

theorem calcPrecoMinFromBase_half_cent_witness:
  "calcPrecoMinFromBase objectString (JNum (Fin (1 / 2))) = fl (57 / 100) \<and>
   spec_deriveMinimum (1 / 2) = 58 / 100 \<and>
   calcPrecoMinFromBase objectString (JNum (Fin (1 / 2))) \<noteq> fl (spec_deriveMinimum (1 / 2))"
  by (rule calcPrecoMinFromBase_half_cent)

text \<open>
  C4, as stated: monotone on all base prices, the absent and the zero ones included.
  It fails between 0, which maps to the fallback 15, and 1, which maps to 1.15.
\<close>

theorem calcPrecoMinFromBase_mono_counterexample:
  "js_le (Fin 0) (Fin 1) \<and>
   \<not> js_le (calcPrecoMinFromBase objectString (JNum (Fin 0)))
           (calcPrecoMinFromBase objectString (JNum (Fin 1)))"
  by (simp add: calc_1 calc_fallback PRECO_MIN_FALLBACK_def)

text \<open>
  C4, amended. The minimum price is monotone on strictly positive base prices: for
  \<open>0 < b1 \<le> b2\<close> the minimum for \<open>b1\<close> is at most the one for \<open>b2\<close>. The base price 100
  gives 115, and the base price 0 and an absent base price give the fallback constant.
\<close>

theorem calcPrecoMinFromBase_mono_positive:
  assumes "js_lt (Fin 0) b1" and "js_le b1 b2"
  shows "js_le (calcPrecoMinFromBase S (JNum b1)) (calcPrecoMinFromBase S (JNum b2)) \<and>
         calcPrecoMinFromBase S (JNum (Fin 100)) = Fin 115 \<and>
         calcPrecoMinFromBase S (JNum (Fin 0)) = PRECO_MIN_FALLBACK \<and>
         calcPrecoMinFromBase S Null = PRECO_MIN_FALLBACK \<and>
         calcPrecoMinFromBase S Undefined = PRECO_MIN_FALLBACK"
  using calc_mono[OF assms] by (simp add: calc_100 calc_fallback)

theorem calcPrecoMinFromBase_mono_positive_witness:
  "js_lt (Fin 0) (Fin 1) \<and> js_le (Fin 1) (Fin 100) \<and>
   js_le (calcPrecoMinFromBase objectString (JNum (Fin 1)))
         (calcPrecoMinFromBase objectString (JNum (Fin 100)))"
proof -
  have a: "js_lt (Fin 0) (Fin 1)" by simp
  have b: "js_le (Fin 1) (Fin 100)" by simp
  from calcPrecoMinFromBase_mono_positive[OF a b, of objectString]
  have "js_le (calcPrecoMinFromBase objectString (JNum (Fin 1)))
              (calcPrecoMinFromBase objectString (JNum (Fin 100)))"
    by (rule conjunct1)
  with a b show ?thesis by (intro conjI)
qed

section \<open>Submission gate\<close>

lemma entered_price_10 [simp]: "entered_price (example_row ''10'' m) = Fin 10"
  by (simp add: entered_price_def example_row_def parseFloat_10)

lemma entered_price_20 [simp]: "entered_price (example_row ''20'' m) = Fin 20"
  by (simp add: entered_price_def example_row_def parseFloat_20)

lemma precoMin_example_row [simp]: "precoMin (example_row p m) = m"
  by (simp add: example_row_def)

lemma gate_iff:
  "priceBelowMinExists rows =
     (\<exists>r \<in> set rows. js_lt (Fin 0) (entered_price r) \<and> js_lt (entered_price r) (effective_min r))"
  by (simp add: priceBelowMinExists_def list_ex_iff js_gt_def)

text \<open>
  C2, as stated: the gate is blocked exactly when some line has an entered price above 0
  and below that line's minimum price. A line with the entered price 10 and the stored
  minimum 0 blocks the gate, although 10 is not below 0.
\<close>

theorem priceBelowMinExists_counterexample:
  "priceBelowMinExists [example_row ''10'' (Fin 0)] \<and>
   \<not> (js_lt (Fin 0) (entered_price (example_row ''10'' (Fin 0))) \<and>
      js_lt (entered_price (example_row ''10'' (Fin 0))) (precoMin (example_row ''10'' (Fin 0))))"
  by (simp add: gate_iff effective_min_def truthy_num_def PRECO_MIN_FALLBACK_def)

text \<open>
  C2, amended. The gate is blocked exactly when some line has an entered price that
  \<open>parseFloat\<close> reads as a number above 0 and below the line's effective minimum, which is
  the stored minimum when that is a number other than 0 and the fallback 15 otherwise.
  One line with price 10 and minimum 15 blocks; with price 20 it does not; a line with
  an empty price never changes the state of the gate.
\<close>

theorem priceBelowMinExists_iff:
  "(priceBelowMinExists rows \<longleftrightarrow>
      (\<exists>r \<in> set rows.
         js_lt (Fin 0) (if precoUnit r = [] then Fin 0 else js_parseFloat (precoUnit r)) \<and>
         js_lt (if precoUnit r = [] then Fin 0 else js_parseFloat (precoUnit r))
               (if precoMin r = NaN \<or> precoMin r = Fin 0 then Fin 15 else precoMin r))) \<and>
   priceBelowMinExists [example_row ''10'' (Fin 15)] \<and>
   \<not> priceBelowMinExists [example_row ''20'' (Fin 15)] \<and>
   (precoUnit r0 = [] \<longrightarrow> priceBelowMinExists (xs @ r0 # ys) = priceBelowMinExists (xs @ ys))"
proof -
  have "\<And>r. effective_min r = (if precoMin r = NaN \<or> precoMin r = Fin 0 then Fin 15 else precoMin r)"
    by (simp add: effective_min_def truthy_num_def PRECO_MIN_FALLBACK_def)
  then have "priceBelowMinExists rows \<longleftrightarrow>
      (\<exists>r \<in> set rows.
         js_lt (Fin 0) (if precoUnit r = [] then Fin 0 else js_parseFloat (precoUnit r)) \<and>
         js_lt (if precoUnit r = [] then Fin 0 else js_parseFloat (precoUnit r))
               (if precoMin r = NaN \<or> precoMin r = Fin 0 then Fin 15 else precoMin r))"
    by (simp add: gate_iff entered_price_def)
  moreover have "priceBelowMinExists [example_row ''10'' (Fin 15)]"
    by (simp add: gate_iff effective_min_def truthy_num_def)
  moreover have "\<not> priceBelowMinExists [example_row ''20'' (Fin 15)]"
    by (simp add: gate_iff effective_min_def truthy_num_def)
  moreover have "precoUnit r0 = [] \<longrightarrow> priceBelowMinExists (xs @ r0 # ys) = priceBelowMinExists (xs @ ys)"
    by (auto simp: gate_iff entered_price_def)
  ultimately show ?thesis by blast
qed

theorem priceBelowMinExists_iff_witness:
  "priceBelowMinExists [example_row ''10'' (Fin 15)] \<and>
   (\<exists>r \<in> set [example_row ''10'' (Fin 15)].
      js_lt (Fin 0) (if precoUnit r = [] then Fin 0 else js_parseFloat (precoUnit r)) \<and>
      js_lt (if precoUnit r = [] then Fin 0 else js_parseFloat (precoUnit r))
            (if precoMin r = NaN \<or> precoMin r = Fin 0 then Fin 15 else precoMin r)) \<and>
   precoUnit (example_row [] (Fin 15)) = [] \<and>
   priceBelowMinExists ([] @ example_row [] (Fin 15) # [example_row ''10'' (Fin 15)])
     = priceBelowMinExists ([] @ [example_row ''10'' (Fin 15)])"
proof -
  note t = priceBelowMinExists_iff[of "[example_row ''10'' (Fin 15)]" "example_row [] (Fin 15)" "[]"
      "[example_row ''10'' (Fin 15)]"]
  have "precoUnit (example_row [] (Fin 15)) = []" by (simp add: example_row_def)
  with t show ?thesis by blast
qed

text \<open>
  C10. When the stored minimum of a line is 0 or not a number, the gate takes the fallback
  constant 15 as the effective minimum of that line: the line blocks the gate exactly when its
  entered price is strictly between 0 and 15, although such a price is not below the stored
  minimum. With the stored minimum 0 (or not a number) the price 10 blocks, and the price 20
  does not. A stored minimum that is a number other than 0 is used as it is.
\<close>

theorem priceBelowMinExists_fallback:
  assumes "precoMin r = Fin 0 \<or> precoMin r = NaN"
  shows
   "effective_min r = Fin 15 \<and>
    (priceBelowMinExists [r] \<longleftrightarrow> js_lt (Fin 0) (entered_price r) \<and> js_lt (entered_price r) (Fin 15)) \<and>
    (priceBelowMinExists (xs @ r # ys) \<longleftrightarrow>
       js_lt (Fin 0) (entered_price r) \<and> js_lt (entered_price r) (Fin 15) \<or> priceBelowMinExists (xs @ ys)) \<and>
    (js_lt (Fin 0) (entered_price r) \<longrightarrow> \<not> js_lt (entered_price r) (precoMin r)) \<and>
    (precoMin r' \<noteq> Fin 0 \<and> precoMin r' \<noteq> NaN \<longrightarrow> effective_min r' = precoMin r') \<and>
    priceBelowMinExists [example_row ''10'' (Fin 0)] \<and>
    \<not> priceBelowMinExists [example_row ''20'' (Fin 0)] \<and>
    priceBelowMinExists [example_row ''10'' NaN] \<and>
    \<not> priceBelowMinExists [example_row ''20'' NaN] \<and>
    \<not> priceBelowMinExists []"
proof -
  have e: "effective_min r = Fin 15"
    using assms by (auto simp: effective_min_def truthy_num_def PRECO_MIN_FALLBACK_def)
  have one: "priceBelowMinExists [r] \<longleftrightarrow> js_lt (Fin 0) (entered_price r) \<and> js_lt (entered_price r) (Fin 15)"
    using e by (simp add: gate_iff)
  have more: "priceBelowMinExists (xs @ r # ys) \<longleftrightarrow>
       js_lt (Fin 0) (entered_price r) \<and> js_lt (entered_price r) (Fin 15) \<or> priceBelowMinExists (xs @ ys)"
    using e by (auto simp: gate_iff)
  have nb: "js_lt (Fin 0) (entered_price r) \<longrightarrow> \<not> js_lt (entered_price r) (precoMin r)"
    using assms by (cases "entered_price r") auto
  have keep: "precoMin r' \<noteq> Fin 0 \<and> precoMin r' \<noteq> NaN \<longrightarrow> effective_min r' = precoMin r'"
    by (simp add: effective_min_def truthy_num_def)
  have ex: "priceBelowMinExists [example_row ''10'' (Fin 0)]"
      "\<not> priceBelowMinExists [example_row ''20'' (Fin 0)]"
      "priceBelowMinExists [example_row ''10'' NaN]"
      "\<not> priceBelowMinExists [example_row ''20'' NaN]"
      "\<not> priceBelowMinExists []"
    by (simp_all add: gate_iff effective_min_def truthy_num_def PRECO_MIN_FALLBACK_def)
  from e one more nb keep ex show ?thesis by blast
qed

theorem priceBelowMinExists_fallback_witness:
  "precoMin (example_row ''10'' (Fin 0)) = Fin 0 \<and>
   effective_min (example_row ''10'' (Fin 0)) = Fin 15 \<and>
   js_lt (Fin 0) (entered_price (example_row ''10'' (Fin 0))) \<and>
   js_lt (entered_price (example_row ''10'' (Fin 0))) (Fin 15) \<and>
   priceBelowMinExists [example_row ''10'' (Fin 0)] \<and>
   \<not> js_lt (entered_price (example_row ''10'' (Fin 0))) (precoMin (example_row ''10'' (Fin 0)))"
proof -
  have b: "precoMin (example_row ''10'' (Fin 0)) = Fin 0 \<or> precoMin (example_row ''10'' (Fin 0)) = NaN"
    by simp
  note t = priceBelowMinExists_fallback[OF b, of "[]" "[]"]
  have c: "js_lt (Fin 0) (entered_price (example_row ''10'' (Fin 0)))" by simp
  have d: "js_lt (entered_price (example_row ''10'' (Fin 0))) (Fin 15)" by simp
  have m: "precoMin (example_row ''10'' (Fin 0)) = Fin 0" by simp
  from t c d m show ?thesis by blast
qed

section \<open>Order lines\<close>

text \<open>
  C9. Every order line should keep a quantity of at least 1. A line is created with the
  quantity 1, and the quantity field declares \<open>min={1}\<close>, but \<open>onQuantidadeChange\<close> stores
  the number it is given: typing 0 into the field leaves the line with the quantity 0.
\<close>

theorem onQuantidadeChange_zero:
  "map quantidade (addRow ''r1'' None (Fin 1) []) = [Fin 1] \<and>
   map quantidade (quantidade_onChange ''r1'' ''0'' (addRow ''r1'' None (Fin 1) [])) = [Fin 0] \<and>
   \<not> js_le (Fin 1) (Fin 0)"
  by (simp add: quantidade_onChange_def onQuantidadeChange_def addRow_def Number_0)

section \<open>The searches: termination, fuel and the field locator\<close>

lemma finite_unseen [simp]: "finite (unseen h seen)"
  by (simp add: unseen_def)

lemma unseen_mono: "seen \<subseteq> seen' \<Longrightarrow> card (unseen h seen') \<le> card (unseen h seen)"
  by (rule card_mono) (auto simp: unseen_def)

lemma unseen_insert:
  "a \<notin> seen \<Longrightarrow> a < length h \<Longrightarrow> card (unseen h (insert a seen)) < card (unseen h seen)"
  by (rule psubset_card_mono) (auto simp: unseen_def)

lemma unseen_empty [simp]: "card (unseen h {}) = length h"
  by (simp add: unseen_def)

lemma entries_dangling: "\<not> a < length h \<Longrightarrow> entries (deref h a) = []"
  by (simp add: deref_def)

lemma ffr_seen [simp]: "a \<in> seen \<Longrightarrow> findFieldRecursive n h (Ref a) names seen path = Some (None, seen)"
  by (cases n) simp_all

lemma ffr_scalar: "\<forall>a. v \<noteq> Ref a \<Longrightarrow> findFieldRecursive n h v names seen path = Some (None, seen)"
  by (cases v) simp_all

lemma ffr_nested_skip:
  "\<forall>a. val \<noteq> Ref a \<Longrightarrow>
     ffr_nested n h ((k, val) # kvs) names seen path = ffr_nested n h kvs names seen path"
  by (cases val) simp_all

lemma ffr_induct [case_names scalar zero step nil ref skip]:
  assumes "\<And>n h v names seen path. \<forall>a. v \<noteq> Ref a \<Longrightarrow> P n h v names seen path"
    and "\<And>h a names seen path. P 0 h (Ref a) names seen path"
    and "\<And>n h a names seen path.
          (a \<notin> seen \<Longrightarrow> level_match (map normalizeKey names) path (entries (deref h a)) = None \<Longrightarrow>
             Q n h (entries (deref h a)) names (insert a seen) path) \<Longrightarrow>
          P (Suc n) h (Ref a) names seen path"
    and "\<And>n h names seen path. Q n h [] names seen path"
    and "\<And>n h k a kvs names seen path.
          P n h (Ref a) names seen (path @ [k]) \<Longrightarrow>
          (\<And>s. findFieldRecursive n h (Ref a) names seen (path @ [k]) = Some (None, s) \<Longrightarrow>
             Q n h kvs names s path) \<Longrightarrow>
          Q n h ((k, Ref a) # kvs) names seen path"
    and "\<And>n h k val kvs names seen path.
          \<forall>a. val \<noteq> Ref a \<Longrightarrow> Q n h kvs names seen path \<Longrightarrow>
          Q n h ((k, val) # kvs) names seen path"
  shows "P n h v names seen path" and "Q n h kvs names seen path"
proof (induction n h v names seen path and n h kvs names seen path
    rule: findFieldRecursive_ffr_nested.induct)
  case (7 n h a names seen path)
  then show ?case by (intro assms(3)) 
next
  case (9 n h k a kvs names seen path)
  show ?case
  proof (rule assms(5))
    show "P n h (Ref a) names seen (path @ [k])" by (rule "9.IH"(1))
  next
    fix s assume "findFieldRecursive n h (Ref a) names seen (path @ [k]) = Some (None, s)"
    then show "Q n h kvs names s path" by (rule "9.IH"(2)[OF _ refl refl])
  qed
qed (rule assms(2) | rule assms(4) | (rule assms(1), simp) | (rule assms(6), simp, assumption))+


lemma ffr_terminates:
  "card (unseen h seen) < n \<Longrightarrow>
     \<exists>r seen'. findFieldRecursive n h v names seen path = Some (r, seen') \<and> seen \<subseteq> seen'"
  "card (unseen h seen) < n \<or> kvs = [] \<Longrightarrow>
     \<exists>r seen'. ffr_nested n h kvs names seen path = Some (r, seen') \<and> seen \<subseteq> seen'"
proof (induction n h v names seen path and n h kvs names seen path rule: ffr_induct)
  case (scalar n h v names seen path)
  then show ?case by (simp add: ffr_scalar)
next
  case (zero h a names seen path)
  then show ?case by simp
next
  case (step n h a names seen path)
  show ?case
  proof (cases "a \<in> seen")
    case True
    then show ?thesis by simp
  next
    case False
    show ?thesis
    proof (cases "level_match (map normalizeKey names) path (entries (deref h a))")
      case (Some r)
      then show ?thesis using False by auto
    next
      case None
      have "card (unseen h (insert a seen)) < n \<or> entries (deref h a) = []"
      proof (cases "a < length h")
        case True
        from unseen_insert[OF False True] step.prems show ?thesis by simp
      next
        case False
        then show ?thesis by (simp add: entries_dangling)
      qed
      from step.IH[OF False None this] obtain r seen' where
        "ffr_nested n h (entries (deref h a)) names (insert a seen) path = Some (r, seen')"
        "insert a seen \<subseteq> seen'" by blast
      then show ?thesis using False None by auto
    qed
  qed
next
  case (nil n h names seen path)
  then show ?case by simp
next
  case (ref n h k a kvs names seen path)
  then have c: "card (unseen h seen) < n" by simp
  from ref.IH(1)[OF c] obtain r s1 where
    f: "findFieldRecursive n h (Ref a) names seen (path @ [k]) = Some (r, s1)" and s: "seen \<subseteq> s1"
    by blast
  show ?case
  proof (cases r)
    case None
    have "card (unseen h s1) < n \<or> kvs = []" using unseen_mono[OF s, of h] c by simp
    from ref.IH(2)[OF f[unfolded None] this] obtain r' s2 where
      "ffr_nested n h kvs names s1 path = Some (r', s2)" "s1 \<subseteq> s2" by blast
    then show ?thesis using f None s by auto
  next
    case (Some x)
    then show ?thesis using f s by auto
  qed
next
  case (skip n h k val kvs names seen path)
  then have "card (unseen h seen) < n \<or> kvs = []" by simp
  from skip.IH[OF this] show ?case using skip.hyps by (simp add: ffr_nested_skip)
qed


lemma fpo_seen [simp]: "a \<in> seen \<Longrightarrow> findPriceInObject n S h (Ref a) seen = Some (None, seen)"
  by (cases n) simp_all

lemma fpo_Suc_Ref:
  "a \<notin> seen \<Longrightarrow> findPriceInObject (Suc n) S h (Ref a) seen =
     (case level_price S None (entries (deref h a)) of
        Some parsed \<Rightarrow> Some (Some parsed, insert a seen)
      | None \<Rightarrow>
          (case fpo_elements n S h (elements (deref h a)) (insert a seen) of
             None \<Rightarrow> None
           | Some (Some nested, seen2) \<Rightarrow> Some (Some nested, seen2)
           | Some (None, seen2) \<Rightarrow> fpo_values n S h (entries (deref h a)) seen2))"
  by (simp only: findPriceInObject.simps ffr_seen insertI1 if_False option.case prod.case)

declare findPriceInObject.simps(7) [simp del]


lemma Number_true_false: "js_Number ''true'' = NaN" "js_Number ''false'' = NaN"
  by (simp_all add: lit_defs)

lemma parse_true_false [simp]: "parse_string ''true'' = None" "parse_string ''false'' = None"
  by (simp_all add: parse_defs trim_def is_space_def Number_true_false)






lemmas key_defs = normalizeKey_def toLowerCase_def lower_char_def is_alnum_def trim_def is_space_def char_of_def bit_Suc_0_iff

lemma nk1: "normalizeKey ''Preco_med_prod'' = ''precomedprod''"
  by (simp add: key_defs)

lemma nk2: "normalizeKey ''Preco_ens'' = ''precoens''"
  by (simp add: key_defs)

lemma nk3: "normalizeKey ''Preco_med_out'' = ''precomedout''"
  by (simp add: key_defs)

lemma tabela_norms: "map normalizeKey tabelaFields = [''precomedprod'', ''precoens'', ''precomedout'']"
  by (simp add: tabelaFields_def nk1 nk2 nk3)

lemma key_matches_set: "set tns = set tns' \<Longrightarrow> key_matches tns k = key_matches tns' k"
  by (simp add: key_matches_def list_ex_iff)

lemma level_match_set:
  assumes "set tns = set tns'"
  shows "level_match tns path kvs = level_match tns' path kvs"
proof -
  have km: "\<And>k. key_matches tns k = key_matches tns' k"
    using assms by (rule key_matches_set)
  show ?thesis
  proof (induction kvs)
    case Nil
    show ?case by simp
  next
    case (Cons x kvs)
    obtain k v where "x = (k, v)" by (cases x)
    with Cons show ?case by (simp add: km)
  qed
qed

lemma level_match_None_iff:
  "level_match tns path kvs = None \<longleftrightarrow> (\<forall>(k, v) \<in> set kvs. \<not> (present v \<and> key_matches tns k))"
  by (induction tns path kvs rule: level_match.induct) (auto simp: present_def)

lemma level_match_Some:
  "level_match tns path kvs = Some r \<Longrightarrow>
     \<exists>k v. r = (k, v, path @ [k]) \<and> (k, v) \<in> set kvs \<and> present v \<and> key_matches tns k"
  by (induction tns path kvs rule: level_match.induct) (auto simp: present_def split: if_splits)

lemma ffr_names_set:
  "set names = set names' \<Longrightarrow>
     findFieldRecursive n h v names seen path = findFieldRecursive n h v names' seen path"
  "set names = set names' \<Longrightarrow>
     ffr_nested n h kvs names seen path = ffr_nested n h kvs names' seen path"
proof (induction n h v names seen path and n h kvs names seen path rule: ffr_induct)
  case (scalar n h v names seen path)
  then show ?case by (simp add: ffr_scalar)
next
  case (zero h a names seen path)
  then show ?case by simp
next
  case (step n h a names seen path)
  have l: "level_match (map normalizeKey names) path (entries (deref h a)) =
           level_match (map normalizeKey names') path (entries (deref h a))"
    using step.prems by (intro level_match_set) simp
  show ?case
  proof (cases "a \<in> seen")
    case True
    then show ?thesis by simp
  next
    case False
    show ?thesis
    proof (cases "level_match (map normalizeKey names) path (entries (deref h a))")
      case None
      from step.IH[OF False None step.prems] show ?thesis using False None l by simp
    next
      case (Some r)
      then show ?thesis using False l by simp
    qed
  qed
next
  case (nil n h names seen path)
  then show ?case by simp
next
  case (ref n h k a kvs names seen path)
  note f = ref.IH(1)[OF ref.prems]
  show ?case
  proof (cases "findFieldRecursive n h (Ref a) names seen (path @ [k])")
    case None
    then have "findFieldRecursive n h (Ref a) names' seen (path @ [k]) = None" using f by simp
    with None show ?thesis by simp
  next
    case (Some x)
    obtain r s where x: "x = (r, s)" by (cases x)
    have g: "findFieldRecursive n h (Ref a) names seen (path @ [k]) = Some (r, s)"
      using Some x by simp
    then have g': "findFieldRecursive n h (Ref a) names' seen (path @ [k]) = Some (r, s)"
      using f by simp
    show ?thesis
    proof (cases r)
      case None
      from ref.IH(2)[OF g[unfolded None] ref.prems] show ?thesis
        by (simp add: g g' None)
    next
      case (Some y)
      then show ?thesis by (simp add: g g')
    qed
  qed
next
  case (skip n h k val kvs names seen path)
  then show ?case by (simp add: ffr_nested_skip)
qed

lemma ffr_no_match:
  assumes "\<forall>c \<in> set h. \<forall>(k, v) \<in> set (entries c). \<not> key_matches (map normalizeKey names) k"
  shows "findFieldRecursive n h v names seen path \<noteq> Some (Some r, s)"
    and "ffr_nested n h kvs names seen path \<noteq> Some (Some r, s)"
  using assms
proof (induction n h v names seen path and n h kvs names seen path arbitrary: r s and r s
    rule: ffr_induct)
  case (scalar n h v names seen path)
  then show ?case by (simp add: ffr_scalar)
next
  case (zero h a names seen path)
  then show ?case by simp
next
  case (step n h a names seen path)
  have "\<forall>(k, v) \<in> set (entries (deref h a)). \<not> key_matches (map normalizeKey names) k"
    using step.prems by (cases "a < length h") (auto simp: deref_def)
  then have l: "level_match (map normalizeKey names) path (entries (deref h a)) = None"
    by (auto simp: level_match_None_iff)
  show ?case
  proof (cases "a \<in> seen")
    case True
    then show ?thesis by simp
  next
    case False
    from step.IH[OF False l step.prems] show ?thesis using False l by simp
  qed
next
  case (nil n h names seen path)
  then show ?case by simp
next
  case (ref n h k a kvs names seen path)
  show ?case
  proof (cases "findFieldRecursive n h (Ref a) names seen (path @ [k])")
    case None
    then show ?thesis by simp
  next
    case (Some x)
    obtain r' s' where x: "x = (r', s')" by (cases x)
    have g: "findFieldRecursive n h (Ref a) names seen (path @ [k]) = Some (r', s')"
      using Some x by simp
    show ?thesis
    proof (cases r')
      case None
      from ref.IH(2)[OF g[unfolded None] ref.prems] show ?thesis
        by (simp add: g None)
    next
      case (Some y)
      with ref.IH(1)[OF ref.prems, of y s'] g show ?thesis by simp
    qed
  qed
next
  case (skip n h k val kvs names seen path)
  then show ?case by (simp add: ffr_nested_skip)
qed

lemmas eval_defs = deref_def key_matches_def key_defs present_def

lemma example_nested_eval:
  "findFieldRecursive (Suc (Suc (Suc n))) example_nested (Ref 0) [''Preco_ens''] {} [] =
     Some (Some (''Preco_ens'', JStr ''50,00'', [''a'', ''b'', ''Preco_ens'']), {0, 1, 2})"
  by (simp add: example_nested_def eval_defs insert_commute)

text \<open>
  C7, as stated: a first-level match always wins over any deeper match. The first loop
  skips a key whose value is \<open>undefined\<close>, \<open>null\<close> or the empty string: in
  \<open>{Preco_ens: "", a: {Preco_ens: "50,00"}}\<close> the first-level key matches the candidate
  and the locator returns the deeper field.
\<close>

theorem findFieldRecursive_counterexample:
  "key_matches (map normalizeKey [''Preco_ens'']) ''Preco_ens'' \<and>
   findFieldRecursive 3 example_shadowed (Ref 0) [''Preco_ens''] {} [] =
     Some (Some (''Preco_ens'', JStr ''50,00'', [''a'', ''Preco_ens'']), {0, 1})"
  by (simp add: example_shadowed_def eval_defs numeral_3_eq_3 insert_commute)

text \<open>
  C7, amended. The field locator checks all keys of the current level before recursing:
  when some key of the first level with a value other than \<open>undefined\<close>, \<open>null\<close> and the
  empty string matches a candidate, the result is such a field of the first level, whatever
  the nested containers hold, and the result depends on the candidates only as a set. For
  \<open>{a:{b:{Preco_ens: "50,00"}}}\<close> and the candidate \<open>Preco_ens\<close> it returns the value
  \<open>"50,00"\<close> with the path \<open>a.b.Preco_ens\<close>. When no key of any container of the record
  matches a candidate, it returns not-found.
\<close>

theorem findFieldRecursive_policy:
  "(a \<notin> seen \<and> (k, v) \<in> set (entries (deref h a)) \<and> present v \<and>
      key_matches (map normalizeKey names) k \<longrightarrow>
      (\<exists>k' v'. findFieldRecursive (Suc n) h (Ref a) names seen path =
                  Some (Some (k', v', path @ [k']), insert a seen) \<and>
               (k', v') \<in> set (entries (deref h a)) \<and> present v' \<and>
               key_matches (map normalizeKey names) k')) \<and>
   (set names = set names' \<longrightarrow>
      findFieldRecursive n h obj names seen path = findFieldRecursive n h obj names' seen path) \<and>
   findFieldRecursive (Suc (Suc (Suc n))) example_nested (Ref 0) [''Preco_ens''] {} [] =
     Some (Some (''Preco_ens'', JStr ''50,00'', [''a'', ''b'', ''Preco_ens'']), {0, 1, 2}) \<and>
   ((\<forall>c \<in> set h. \<forall>(k, v) \<in> set (entries c). \<not> key_matches (map normalizeKey names) k) \<and>
      length h < n \<longrightarrow>
      (\<exists>seen'. findFieldRecursive n h obj names {} [] = Some (None, seen')))"
proof (intro conjI impI)
  assume "a \<notin> seen \<and> (k, v) \<in> set (entries (deref h a)) \<and> present v \<and>
      key_matches (map normalizeKey names) k"
  then have a: "a \<notin> seen" and "level_match (map normalizeKey names) path (entries (deref h a)) \<noteq> None"
    by (auto simp: level_match_None_iff)
  then obtain r where r: "level_match (map normalizeKey names) path (entries (deref h a)) = Some r"
    by auto
  from level_match_Some[OF r] obtain k' v' where
    "r = (k', v', path @ [k'])" "(k', v') \<in> set (entries (deref h a))" "present v'"
    "key_matches (map normalizeKey names) k'" by blast
  then show "\<exists>k' v'. findFieldRecursive (Suc n) h (Ref a) names seen path =
                  Some (Some (k', v', path @ [k']), insert a seen) \<and>
               (k', v') \<in> set (entries (deref h a)) \<and> present v' \<and>
               key_matches (map normalizeKey names) k'"
    using a r by auto
next
  assume "set names = set names'"
  then show "findFieldRecursive n h obj names seen path = findFieldRecursive n h obj names' seen path"
    by (rule ffr_names_set)
next
  show "findFieldRecursive (Suc (Suc (Suc n))) example_nested (Ref 0) [''Preco_ens''] {} [] =
     Some (Some (''Preco_ens'', JStr ''50,00'', [''a'', ''b'', ''Preco_ens'']), {0, 1, 2})"
    by (rule example_nested_eval)
next
  assume h: "(\<forall>c \<in> set h. \<forall>(k, v) \<in> set (entries c). \<not> key_matches (map normalizeKey names) k) \<and>
      length h < n"
  then have "card (unseen h {}) < n" by simp
  from ffr_terminates(1)[OF this] obtain r seen' where
    f: "findFieldRecursive n h obj names {} [] = Some (r, seen')" by blast
  have "r = None"
  proof (cases r)
    case (Some x)
    with f ffr_no_match(1)[of h names n obj "{}" "[]" x seen'] h show ?thesis by simp
  qed simp
  with f show "\<exists>seen'. findFieldRecursive n h obj names {} [] = Some (None, seen')" by blast
qed

theorem findFieldRecursive_policy_witness:
  "(0::nat) \<notin> {} \<and> (''Preco_ens'', JStr ''50,00'') \<in> set (entries (deref example_first_level 0)) \<and>
   present (JStr ''50,00'') \<and> key_matches (map normalizeKey [''Preco_ens'']) ''Preco_ens'' \<and>
   (\<exists>k' v'. findFieldRecursive (Suc 0) example_first_level (Ref 0) [''Preco_ens''] {} [] =
               Some (Some (k', v', [] @ [k']), insert 0 {}) \<and>
            (k', v') \<in> set (entries (deref example_first_level 0))) \<and>
   set [''Preco_ens''] = set [''Preco_ens'', ''Preco_ens''] \<and>
   findFieldRecursive 3 example_nested (Ref 0) [''Preco_ens''] {} [] =
     findFieldRecursive 3 example_nested (Ref 0) [''Preco_ens'', ''Preco_ens''] {} [] \<and>
   length example_no_match < 3 \<and>
   (\<exists>seen'. findFieldRecursive 3 example_no_match (Ref 0) [''Preco_ens''] {} [] = Some (None, seen'))"
proof -
  have h1: "(0::nat) \<notin> {} \<and> (''Preco_ens'', JStr ''50,00'') \<in> set (entries (deref example_first_level 0)) \<and>
     present (JStr ''50,00'') \<and> key_matches (map normalizeKey [''Preco_ens'']) ''Preco_ens''"
    by (simp add: example_first_level_def eval_defs)
  have h2: "set [''Preco_ens''] = set [''Preco_ens'', ''Preco_ens'']" by simp
  have h3: "(\<forall>c \<in> set example_no_match. \<forall>(k, v) \<in> set (entries c).
       \<not> key_matches (map normalizeKey [''Preco_ens'']) k) \<and> length example_no_match < 3"
    by (simp add: example_no_match_def eval_defs)
  note t1 = findFieldRecursive_policy[where a = 0 and seen = "{}" and k = "''Preco_ens''"
      and v = "JStr ''50,00''" and h = example_first_level and names = "[''Preco_ens'']" and n = 0
      and path = "[]" and names' = "[''Preco_ens'', ''Preco_ens'']" and obj = "Ref 0"]
  note t2 = findFieldRecursive_policy[where a = 0 and seen = "{}" and k = "''Preco_ens''"
      and v = "JStr ''50,00''" and h = example_nested and names = "[''Preco_ens'']" and n = 3
      and path = "[]" and names' = "[''Preco_ens'', ''Preco_ens'']" and obj = "Ref 0"]
  note t3 = findFieldRecursive_policy[where a = 0 and seen = "{}" and k = "''Preco_ens''"
      and v = "JStr ''50,00''" and h = example_no_match and names = "[''Preco_ens'']" and n = 3
      and path = "[]" and names' = "[''Preco_ens'', ''Preco_ens'']" and obj = "Ref 0"]
  from t1 h1 have c1: "\<exists>k' v'. findFieldRecursive (Suc 0) example_first_level (Ref 0) [''Preco_ens''] {} [] =
               Some (Some (k', v', [] @ [k']), insert 0 {}) \<and>
            (k', v') \<in> set (entries (deref example_first_level 0))" by blast
  from t2 h2 have c2: "findFieldRecursive 3 example_nested (Ref 0) [''Preco_ens''] {} [] =
     findFieldRecursive 3 example_nested (Ref 0) [''Preco_ens'', ''Preco_ens''] {} []" by blast
  from t3 h3 have c3: "\<exists>seen'. findFieldRecursive 3 example_no_match (Ref 0) [''Preco_ens''] {} [] = Some (None, seen')"
    by blast
  from h1 h2 h3 c1 c2 c3 show ?thesis by blast
qed

section \<open>Price extractor: the tabela fields\<close>

lemma Number_objectString: "js_Number ''[objectObject]'' = NaN"
  by (simp add: lit_defs)

lemma parse_objectString [simp]: "parse_string (objectString a) = None"
  by (simp add: objectString_def parse_defs trim_def is_space_def Number_objectString)

lemma positive_80 [simp]: "positive (Some (Fin 80))" and positive_999 [simp]: "positive (Some (Fin 999))"
  by (simp_all add: positive_def truthy_num_def js_gt_def)

lemma priority_valor:
  "priority_lookup S [(''valor'', JStr ''999''), (k, Ref b)] priorityKeys = Some (Fin 999)"
  if "\<forall>p \<in> set priorityKeys. k \<noteq> p \<and> toLowerCase k \<noteq> toLowerCase p"
  using that
  by (simp add: priorityKeys_def toLowerCase_def lower_char_def char_of_def bit_Suc_0_iff present_def parse_999)

lemma Number_abc: "js_Number ''abc'' = NaN"
  by (simp add: lit_defs)

lemma parse_abc: "parse_string ''abc'' = None"
  by (simp add: parse_defs trim_def is_space_def Number_abc)

lemma lower_defs: "toLowerCase ''valor'' = ''valor''" "toLowerCase ''Preco_ens'' = ''preco_ens''"
  "toLowerCase ''a'' = ''a''" "toLowerCase ''x'' = ''x''"
  by (simp_all add: toLowerCase_def lower_char_def char_of_def bit_Suc_0_iff)

lemma level_sub: "level_price objectString None [(''valor'', JStr ''999''), (''x'', Ref b)] = Some (Fin 999)"
proof -
  have "\<forall>p \<in> set priorityKeys. ''x'' \<noteq> p \<and> toLowerCase ''x'' \<noteq> toLowerCase p"
    by (simp add: priorityKeys_def toLowerCase_def lower_char_def char_of_def bit_Suc_0_iff)
  then show ?thesis by (simp add: level_price_def priority_valor)
qed

lemma level_deep: "level_price objectString None [(''Preco_ens'', JStr ''abc''), (''a'', Ref b)] = None"
  by (simp add: level_price_def priorityKeys_def lower_defs toLowerCase_def lower_char_def char_of_def bit_Suc_0_iff
     present_def parse_abc positive_def price_like_def)

lemma example_sub_locator:
  "findFieldRecursive (Suc (Suc n)) example_sub (Ref 0) tabelaFields {} [] =
     Some (Some (''Preco_med_prod'', JStr ''80'', [''x'', ''Preco_med_prod'']), {0, 1})"
  by (simp add: example_sub_def tabela_norms eval_defs insert_commute)

lemma example_sub_price:
  "findPriceInObject (Suc n) objectString example_sub (Ref 0) {} = Some (Some (Fin 999), {0})"
  by (simp add: fpo_Suc_Ref example_sub_def deref_def level_sub)

lemma example_deep_locator:
  "findFieldRecursive (Suc n) example_deep (Ref 0) tabelaFields {} [] =
     Some (Some (''Preco_ens'', JStr ''abc'', [''Preco_ens'']), {0})"
  by (simp add: example_deep_def tabela_norms eval_defs)

lemma example_deep_price:
  "findPriceInObject (Suc (Suc n)) objectString example_deep (Ref 0) {} = Some (Some (Fin 999), {0, 1})"
proof -
  have inner: "findPriceInObject (Suc n) objectString example_deep (Ref 1) {0} = Some (Some (Fin 999), {0, 1})"
    by (simp add: fpo_Suc_Ref example_deep_def deref_def level_sub insert_commute)
  have "fpo_values (Suc n) objectString example_deep [(''Preco_ens'', JStr ''abc''), (''a'', Ref 1)] {0} =
      Some (Some (Fin 999), {0, 1})"
    using inner by (simp add: parse_abc positive_def truthy_num_def js_gt_def)
  then show ?thesis
    by (simp add: fpo_Suc_Ref example_deep_def deref_def level_deep)
qed

text \<open>
  C1. The price extractor should let a tabela field found at any depth win over a generic
  field: for \<open>{valor: "999", x: {Preco_med_prod: "80"}}\<close> the base price should be 80. Step 1
  of \<open>findPriceInObject\<close> calls the field locator on \<open>obj\<close> with the set \<open>seen\<close> to which \<open>obj\<close>
  has just been added, and the locator returns \<open>null\<close> for a container in \<open>seen\<close>: the step never
  finds a field. So \<open>findPriceInObject\<close> on that record returns 999, the value of the priority
  key \<open>valor\<close> of the first level, although the locator started with a new \<open>seen\<close> finds
  \<open>x.Preco_med_prod\<close> with the value \<open>"80"\<close>. The callers run the locator themselves before
  \<open>findPriceInObject\<close>, which hides the defect for that record but not below the first level:
  for \<open>{Preco_ens: "abc", a: {valor: "999", x: {Preco_med_prod: "80"}}}\<close> the field
  \<open>precoBase\<close> computed by \<open>normalize\<close> is 999.
\<close>

theorem findPriceInObject_tabela_nested:
  "findFieldRecursive n h (Ref a) tabelaFields (insert a seen) path = Some (None, insert a seen) \<and>
   findFieldRecursive 3 example_sub (Ref 0) tabelaFields {} [] =
     Some (Some (''Preco_med_prod'', JStr ''80'', [''x'', ''Preco_med_prod'']), {0, 1}) \<and>
   parseToNumber objectString (JStr ''80'') = Some (Fin 80) \<and>
   parseToNumber objectString (JStr ''999'') = Some (Fin 999) \<and>
   findPriceInObject 3 objectString example_sub (Ref 0) {} = Some (Some (Fin 999), {0}) \<and>
   normalize_precoBase 4 objectString example_deep (Ref 0) = Some (Some (Fin 999))"
proof -
  have dead: "findFieldRecursive n h (Ref a) tabelaFields (insert a seen) path = Some (None, insert a seen)"
    by simp
  have loc: "findFieldRecursive 3 example_sub (Ref 0) tabelaFields {} [] =
     Some (Some (''Preco_med_prod'', JStr ''80'', [''x'', ''Preco_med_prod'']), {0, 1})"
    using example_sub_locator[of 1] by (simp only: numeral_3_eq_3 One_nat_def)
  have p: "findPriceInObject 3 objectString example_sub (Ref 0) {} = Some (Some (Fin 999), {0})"
    using example_sub_price[of 2] by (simp only: numeral_3_eq_3 numeral_2_eq_2)
  have f: "findFieldRecursive 4 example_deep (Ref 0) tabelaFields {} [] =
     Some (Some (''Preco_ens'', JStr ''abc'', [''Preco_ens'']), {0})"
    using example_deep_locator[of 3] by simp
  have q: "findPriceInObject 4 objectString example_deep (Ref 0) {} = Some (Some (Fin 999), {0, 1})"
    using example_deep_price[of 2] by (simp add: numeral_Bit0)
  have n: "normalize_precoBase 4 objectString example_deep (Ref 0) = Some (Some (Fin 999))"
    by (simp add: normalize_precoBase_def f q parse_abc truthy_num_def)
  from dead loc p n show ?thesis by (simp add: parse_80 parse_999)
qed

theorem findPriceInObject_tabela_nested_witness:
  "findFieldRecursive 3 example_sub (Ref 0) tabelaFields (insert 0 {}) [] = Some (None, insert 0 {}) \<and>
   parseToNumber objectString (JStr ''80'') = Some (Fin 80) \<and>
   findPriceInObject 3 objectString example_sub (Ref 0) {} = Some (Some (Fin 999), {0})"
  using findPriceInObject_tabela_nested[of 3 example_sub 0 "{}" "[]"] by blast

section \<open>The searches on records with cycles\<close>












































lemma priority_lookup_Nil [simp]: "priority_lookup S [] ks = None"
  by (induction ks) simp_all

lemma level_price_Nil [simp]: "level_price S None [] = None"
  by (simp add: level_price_def)




























end
